theory Spec2Isabelle
  imports Complex_Main "HOL-Library.Sublist"
begin

section \<open>The edge worker: data model\<close>

text \<open>
  The worker is one JavaScript module (\<^verbatim>\<open>fetch\<close>, \<^verbatim>\<open>checkRateLimit\<close>,
  \<^verbatim>\<open>getCachedData\<close>, \<^verbatim>\<open>setCachedData\<close>, \<^verbatim>\<open>handleValidation\<close>,
  \<^verbatim>\<open>verifyTurnstile\<close>, \<^verbatim>\<open>getBlacklist\<close>, \<^verbatim>\<open>getWhitelistSet\<close>,
  \<^verbatim>\<open>getRandomRedirectUrl\<close>, \<^verbatim>\<open>serveStaticFile\<close>). Every function is
  embedded as a HOL function that takes the state of the key-value store and returns the
  new one. What the code awaits from outside (the store failing, the remote documents, the
  bot-verification service, the clock, the random number) is read from a record
  \<open>world\<close>. Every \<^verbatim>\<open>try/catch\<close> of the source is a branch of the model.

  One reading of the clock, \<open>nowMs\<close> (epoch milliseconds), serves a whole invocation.
  Strings are lists of 8-bit characters. JavaScript numbers are modelled as unbounded
  integers (the timestamps and counters of the code stay far below \<open>2^53\<close>); the three
  numeric settings are the integers that \<^verbatim>\<open>parseInt\<close> yields for them, and a setting
  without a numeric prefix (\<^verbatim>\<open>NaN\<close>) is outside the model.
\<close>

subsection \<open>The key-value store\<close>

text \<open>
  The store holds JSON values under string keys. The code writes two shapes:
  \<^verbatim>\<open>{ requests }\<close> under \<^verbatim>\<open>rate_limit:<ip>\<close> and \<^verbatim>\<open>{ data, timestamp }\<close> under
  \<^verbatim>\<open>cache:<name>\<close>. Every entry is written with \<^verbatim>\<open>expirationTtl\<close>; the store
  drops it at that moment (kept here in epoch milliseconds).
\<close>

datatype kv_value = RateData "int list" | CacheData "string list" int

record kv_entry =
  kv_val :: kv_value
  kv_expires :: int

text \<open>
  What a request does to the outside is recorded, in order: store reads and writes (with
  whether they failed), the HTTP fetches of the remote documents, and the call of the
  bot-verification service.
\<close>

datatype source = BlacklistApi | BlacklistRaw
  | WhitelistApi | WhitelistRaw | WhitelistTxt
  | UrlsApi | UrlsRaw | UrlsTxt

datatype event = KvGet string bool | KvPut string bool | HttpFetch source | Siteverify

fun kv_failed :: "event \<Rightarrow> bool" where
  "kv_failed (KvGet k ok) = (\<not> ok)"
| "kv_failed (KvPut k ok) = (\<not> ok)"
| "kv_failed (HttpFetch src) = False"
| "kv_failed Siteverify = False"

fun is_put :: "event \<Rightarrow> bool" where
  "is_put (KvPut k ok) = True"
| "is_put (KvGet k ok) = False"
| "is_put (HttpFetch src) = False"
| "is_put Siteverify = False"

record sys =
  kv :: "string \<rightharpoonup> kv_entry"
  trace :: "event list"

text \<open>The outcome of one retrieval strategy: the fetch or a parse step raised, the
  response was not \<^verbatim>\<open>ok\<close>, or the content was read.\<close>

datatype 'a attempt = Threw | NotOk | Fetched 'a

record world =
  get_fails :: "string \<Rightarrow> bool"
  put_fails :: "string \<Rightarrow> bool"
  blacklist_api :: "string attempt"
  blacklist_raw :: "string attempt"
  whitelist_api :: "string list option attempt"
  whitelist_raw :: "string list option attempt"
  whitelist_txt :: "string attempt"
  urls_api :: "string list option attempt"
  urls_raw :: "string list option attempt"
  urls_txt :: "string attempt"
  siteverify :: "string \<Rightarrow> string \<Rightarrow> bool option"
  random :: real

datatype js_error = StoreError | TypeError

definition log_event :: "event \<Rightarrow> sys \<Rightarrow> sys" where
  "log_event e s = s\<lparr>trace := trace s @ [e]\<rparr>"

text \<open>\<^verbatim>\<open>env.RATE_LIMIT_KV.get(key, { type: 'json' })\<close>: raises when the store is
  unreachable, yields \<^verbatim>\<open>null\<close> when the key is absent or its entry has expired.\<close>

definition kv_get :: "world \<Rightarrow> int \<Rightarrow> string \<Rightarrow> sys \<Rightarrow> (js_error + kv_value option) \<times> sys" where
  "kv_get w nowMs k s =
     (if get_fails w k then (Inl StoreError, log_event (KvGet k False) s)
      else (Inr (case kv s k of
                   None \<Rightarrow> None
                 | Some e \<Rightarrow> if nowMs < kv_expires e then Some (kv_val e) else None),
            log_event (KvGet k True) s))"

text \<open>\<^verbatim>\<open>env.RATE_LIMIT_KV.put(key, value, { expirationTtl })\<close>, the time to live in
  seconds. A failing write leaves the store as it was.\<close>

definition kv_put :: "world \<Rightarrow> int \<Rightarrow> string \<Rightarrow> kv_value \<Rightarrow> int \<Rightarrow> sys \<Rightarrow> (js_error + unit) \<times> sys" where
  "kv_put w nowMs k v expirationTtl s =
     (if put_fails w k then (Inl StoreError, log_event (KvPut k False) s)
      else (Inr (),
            log_event (KvPut k True)
              (s\<lparr>kv := (kv s)(k \<mapsto> \<lparr>kv_val = v, kv_expires = nowMs + 1000 * expirationTtl\<rparr>)\<rparr>)))"

subsection \<open>Requests and configuration\<close>

text \<open>The body of a validation request, with the three fields as the interface declares
  them: strings that may be absent.\<close>

record form =
  f_email :: "string option"
  f_turnstileToken :: "string option"
  f_honeypotField :: "string option"

text \<open>A request: its method, the path of its URL, the two headers the code reads, and
  the result of \<^verbatim>\<open>request.json()\<close> (\<open>None\<close> when the body is not JSON).\<close>

record request =
  http_method :: string
  path :: string
  cf_connecting_ip :: "string option"
  x_forwarded_for :: "string option"
  json :: "form option"

record env =
  RATE_LIMIT_MAX_REQUESTS :: "int option"
  RATE_LIMIT_WINDOW :: "int option"
  CACHE_TTL :: "int option"

text \<open>\<^verbatim>\<open>a || b\<close> on an optional string: an absent header and the empty string are
  both falsy.\<close>

definition or_else :: "string option \<Rightarrow> string \<Rightarrow> string" where
  "or_else v d = (case v of None \<Rightarrow> d | Some x \<Rightarrow> if x = [] then d else x)"

definition clientIP_of :: "request \<Rightarrow> string" where
  "clientIP_of request =
     or_else (cf_connecting_ip request) (or_else (x_forwarded_for request) ''unknown'')"

text \<open>\<^verbatim>\<open>parseInt(env.X || '<default>')\<close>.\<close>

definition setting :: "int option \<Rightarrow> int \<Rightarrow> int" where
  "setting v dflt = (case v of None \<Rightarrow> dflt | Some n \<Rightarrow> n)"

section \<open>Rate limiter\<close>

record rate_result =
  allowed :: bool
  remaining :: int

definition rate_key :: "request \<Rightarrow> string" where
  "rate_key request = ''rate_limit:'' @ clientIP_of request"

definition fail_open :: rate_result where
  "fail_open = \<lparr>allowed = True, remaining = 1\<rparr>"

text \<open>\<^verbatim>\<open>currentData ? currentData.requests.filter(t => t > windowStart) : []\<close>; a
  stored value without a \<^verbatim>\<open>requests\<close> array makes \<^verbatim>\<open>.filter\<close> raise.\<close>

definition window_requests :: "kv_value option \<Rightarrow> int \<Rightarrow> js_error + int list" where
  "window_requests currentData windowStart =
     (case currentData of
        None \<Rightarrow> Inr []
      | Some (RateData rs) \<Rightarrow> Inr (filter (\<lambda>timestamp. timestamp > windowStart) rs)
      | Some (CacheData d t) \<Rightarrow> Inl TypeError)"

definition checkRateLimit :: "request \<Rightarrow> env \<Rightarrow> world \<Rightarrow> int \<Rightarrow> sys \<Rightarrow> rate_result \<times> sys" where
  "checkRateLimit request env w nowMs s =
     (let maxRequests = setting (RATE_LIMIT_MAX_REQUESTS env) 10;
          windowSeconds = setting (RATE_LIMIT_WINDOW env) 60;
          now = nowMs div 1000;
          windowStart = now - windowSeconds;
          key = rate_key request
      in case kv_get w nowMs key s of
           (Inl err, s1) \<Rightarrow> (fail_open, s1)
         | (Inr currentData, s1) \<Rightarrow>
             (case window_requests currentData windowStart of
                Inl err \<Rightarrow> (fail_open, s1)
              | Inr requests \<Rightarrow>
                  if int (length requests) \<ge> maxRequests
                  then (\<lparr>allowed = False, remaining = 0\<rparr>, s1)
                  else
                    (let requests' = requests @ [now]
                     in case kv_put w nowMs key (RateData requests') (windowSeconds + 60) s1 of
                          (Inl err, s2) \<Rightarrow> (fail_open, s2)
                        | (Inr u, s2) \<Rightarrow>
                            (\<lparr>allowed = True,
                              remaining = maxRequests - int (length requests')\<rparr>, s2))))"

section \<open>Cache layer\<close>

text \<open>\<^verbatim>\<open>getCachedData\<close>: the payload when the entry has a truthy \<^verbatim>\<open>timestamp\<close> and
  \<^verbatim>\<open>now - cached.timestamp < ttl * 1000\<close>, otherwise \<^verbatim>\<open>null\<close>; a failing read is
  caught and gives \<^verbatim>\<open>null\<close> too.\<close>

definition getCachedData :: "string \<Rightarrow> env \<Rightarrow> world \<Rightarrow> int \<Rightarrow> sys \<Rightarrow> string list option \<times> sys" where
  "getCachedData key env w nowMs s =
     (let cacheKey = ''cache:'' @ key
      in case kv_get w nowMs cacheKey s of
           (Inl err, s1) \<Rightarrow> (None, s1)
         | (Inr cached, s1) \<Rightarrow>
             (case cached of
                Some (CacheData d timestamp) \<Rightarrow>
                  if timestamp \<noteq> 0
                  then (let ttl = setting (CACHE_TTL env) 300;
                            now = nowMs
                        in if now - timestamp < ttl * 1000 then (Some d, s1) else (None, s1))
                  else (None, s1)
              | Some (RateData rs) \<Rightarrow> (None, s1)
              | None \<Rightarrow> (None, s1)))"

text \<open>\<^verbatim>\<open>setCachedData\<close>: writes \<^verbatim>\<open>{ data, timestamp: Date.now() }\<close> with
  \<^verbatim>\<open>expirationTtl: ttl + 60\<close>; a failing write is caught and ignored.\<close>

definition setCachedData :: "string \<Rightarrow> string list \<Rightarrow> env \<Rightarrow> world \<Rightarrow> int \<Rightarrow> sys \<Rightarrow> sys" where
  "setCachedData key d env w nowMs s =
     (let cacheKey = ''cache:'' @ key;
          ttl = setting (CACHE_TTL env) 300
      in case kv_put w nowMs cacheKey (CacheData d nowMs) (ttl + 60) s of
           (Inl err, s1) \<Rightarrow> s1
         | (Inr u, s1) \<Rightarrow> s1)"

section \<open>Strings\<close>

text \<open>White space as \<^verbatim>\<open>trim\<close> and the regular expression class \<^verbatim>\<open>\s\<close> see it, for
  characters up to U+00FF: tab, line feed, vertical tab, form feed, carriage return, space
  and the no-break space.\<close>

definition is_space :: "char \<Rightarrow> bool" where
  "is_space c = (c \<in> set [CHR 0x09, CHR 0x0A, CHR 0x0B, CHR 0x0C, CHR 0x0D, CHR 0x20, CHR 0xA0])"

definition trim :: "string \<Rightarrow> string" where
  "trim str = rev (dropWhile is_space (rev (dropWhile is_space str)))"

text \<open>\<^verbatim>\<open>toLowerCase\<close> on characters up to U+00FF: the letters A to Z and the
  accented capitals U+00C0 to U+00DE (U+00D7, the multiplication sign, apart) move up by
  32.\<close>

definition is_upper :: "nat \<Rightarrow> bool" where
  "is_upper n = ((65 \<le> n \<and> n \<le> 90) \<or> (192 \<le> n \<and> n \<le> 222 \<and> n \<noteq> 215))"

definition lower_char :: "char \<Rightarrow> char" where
  "lower_char c = (if is_upper (of_char c) then char_of (of_char c + 32 :: nat) else c)"

definition toLowerCase :: "string \<Rightarrow> string" where
  "toLowerCase str = map lower_char str"

text \<open>\<^verbatim>\<open>str.split('\n')\<close>: the pieces between line feeds, the empty ones too.\<close>

fun split_lines :: "string \<Rightarrow> string list" where
  "split_lines [] = [[]]"
| "split_lines (c # cs) =
     (if c = CHR 0x0A then [] # split_lines cs
      else (case split_lines cs of
              [] \<Rightarrow> [[c]]
            | l # ls \<Rightarrow> (c # l) # ls))"

definition startsWith :: "string \<Rightarrow> string \<Rightarrow> bool" where
  "startsWith str p = (take (length p) str = p)"

text \<open>\<^verbatim>\<open>/^[^\s@]+@[^\s@]+\.[^\s@]+$/.test(email)\<close>: no white space, exactly one
  \<^verbatim>\<open>@\<close> with something before it, and after it a dot that is neither the first nor
  the last character.\<close>

definition emailRegex_test :: "string \<Rightarrow> bool" where
  "emailRegex_test str =
     (let local = takeWhile (\<lambda>c. c \<noteq> CHR ''@'') str;
          rest = dropWhile (\<lambda>c. c \<noteq> CHR ''@'') str
      in local \<noteq> [] \<and> rest \<noteq> [] \<and> (\<forall>c\<in>set local. \<not> is_space c)
         \<and> (\<forall>c\<in>set (tl rest). \<not> is_space c \<and> c \<noteq> CHR ''@'')
         \<and> CHR ''.'' \<in> set (tl (butlast (tl rest))))"

section \<open>Bot verification\<close>

text \<open>\<^verbatim>\<open>verifyTurnstile\<close>: one call of the verification service; an empty token, a
  failing call and a response without \<^verbatim>\<open>success\<close> all give \<^verbatim>\<open>false\<close>.\<close>

definition verifyTurnstile :: "string \<Rightarrow> string \<Rightarrow> world \<Rightarrow> sys \<Rightarrow> bool \<times> sys" where
  "verifyTurnstile token clientIP w s =
     (if token = [] then (False, s)
      else (case siteverify w token clientIP of
              None \<Rightarrow> (False, log_event Siteverify s)
            | Some success \<Rightarrow> (success, log_event Siteverify s)))"

section \<open>Remote document fetcher\<close>

text \<open>Each \<^verbatim>\<open>Method n\<close> block of the source leaves its list in the variable it was
  given (\<^verbatim>\<open>blacklist\<close>, \<^verbatim>\<open>emails\<close>, \<^verbatim>\<open>urls\<close>), which stays empty when the block
  fails: its own \<^verbatim>\<open>catch\<close> swallows a failing fetch and a failing parse step. The outer
  \<^verbatim>\<open>try/catch\<close> of each fetcher surrounds calls that catch their own failures
  (\<^verbatim>\<open>getCachedData\<close>, \<^verbatim>\<open>setCachedData\<close>), so it has no branch of its own here.\<close>

definition blacklist_lines :: "string \<Rightarrow> string list" where
  "blacklist_lines content = filter (\<lambda>ip. trim ip \<noteq> []) (split_lines content)"

definition blacklist_method1 :: "world \<Rightarrow> string list" where
  "blacklist_method1 w =
     (case blacklist_api w of Fetched content \<Rightarrow> blacklist_lines content | NotOk \<Rightarrow> [] | Threw \<Rightarrow> [])"

definition blacklist_method2 :: "world \<Rightarrow> string list" where
  "blacklist_method2 w =
     (case blacklist_raw w of Fetched content \<Rightarrow> blacklist_lines content | NotOk \<Rightarrow> [] | Threw \<Rightarrow> [])"

definition getBlacklist :: "env \<Rightarrow> world \<Rightarrow> int \<Rightarrow> sys \<Rightarrow> string list \<times> sys" where
  "getBlacklist env w nowMs s =
     (case getCachedData ''blacklist'' env w nowMs s of
        (Some cached, s1) \<Rightarrow> (cached, s1)
      | (None, s1) \<Rightarrow>
          (let s2 = log_event (HttpFetch BlacklistApi) s1;
               blacklist1 = blacklist_method1 w;
               (blacklist2, s3) =
                 (if blacklist1 = []
                  then (blacklist_method2 w, log_event (HttpFetch BlacklistRaw) s2)
                  else (blacklist1, s2));
               s4 = (if blacklist2 \<noteq> []
                     then setCachedData ''blacklist'' blacklist2 env w nowMs s3 else s3)
           in (blacklist2, s4)))"

text \<open>\<^verbatim>\<open>(jsonData.emails || []).map(email => email.toLowerCase())\<close>.\<close>

definition json_emails :: "string list option \<Rightarrow> string list" where
  "json_emails field = map toLowerCase (case field of None \<Rightarrow> [] | Some es \<Rightarrow> es)"

definition text_emails :: "string \<Rightarrow> string list" where
  "text_emails txt =
     map toLowerCase
       (filter (\<lambda>email. email \<noteq> [] \<and> CHR ''@'' \<in> set email)
          (map trim (split_lines txt)))"

definition whitelist_method1 :: "world \<Rightarrow> string list" where
  "whitelist_method1 w =
     (case whitelist_api w of Fetched field \<Rightarrow> json_emails field | NotOk \<Rightarrow> [] | Threw \<Rightarrow> [])"

definition whitelist_method2 :: "world \<Rightarrow> string list" where
  "whitelist_method2 w =
     (case whitelist_raw w of Fetched field \<Rightarrow> json_emails field | NotOk \<Rightarrow> [] | Threw \<Rightarrow> [])"

definition whitelist_method3 :: "world \<Rightarrow> string list" where
  "whitelist_method3 w =
     (case whitelist_txt w of Fetched txt \<Rightarrow> text_emails txt | NotOk \<Rightarrow> [] | Threw \<Rightarrow> [])"

definition getWhitelistSet :: "env \<Rightarrow> world \<Rightarrow> int \<Rightarrow> sys \<Rightarrow> string set \<times> sys" where
  "getWhitelistSet env w nowMs s =
     (case getCachedData ''whitelist_set'' env w nowMs s of
        (Some cached, s1) \<Rightarrow> (set cached, s1)
      | (None, s1) \<Rightarrow>
          (let s2 = log_event (HttpFetch WhitelistApi) s1;
               emails1 = whitelist_method1 w;
               (emails2, s3) =
                 (if emails1 = []
                  then (whitelist_method2 w, log_event (HttpFetch WhitelistRaw) s2)
                  else (emails1, s2));
               (emails3, s4) =
                 (if emails2 = []
                  then (whitelist_method3 w, log_event (HttpFetch WhitelistTxt) s3)
                  else (emails2, s3));
               s5 = (if emails3 \<noteq> []
                     then setCachedData ''whitelist_set'' emails3 env w nowMs s4 else s4)
           in (set emails3, s5)))"

text \<open>\<^verbatim>\<open>jsonData.urls || []\<close>, and the lines of the text file that start with
  \<^verbatim>\<open>http\<close>.\<close>

definition json_urls :: "string list option \<Rightarrow> string list" where
  "json_urls field = (case field of None \<Rightarrow> [] | Some us \<Rightarrow> us)"

definition text_urls :: "string \<Rightarrow> string list" where
  "text_urls txt =
     filter (\<lambda>url. url \<noteq> [] \<and> startsWith url ''http'') (map trim (split_lines txt))"

definition urls_method1 :: "world \<Rightarrow> string list" where
  "urls_method1 w =
     (case urls_api w of Fetched field \<Rightarrow> json_urls field | NotOk \<Rightarrow> [] | Threw \<Rightarrow> [])"

definition urls_method2 :: "world \<Rightarrow> string list" where
  "urls_method2 w =
     (case urls_raw w of Fetched field \<Rightarrow> json_urls field | NotOk \<Rightarrow> [] | Threw \<Rightarrow> [])"

definition urls_method3 :: "world \<Rightarrow> string list" where
  "urls_method3 w =
     (case urls_txt w of Fetched txt \<Rightarrow> text_urls txt | NotOk \<Rightarrow> [] | Threw \<Rightarrow> [])"

text \<open>\<^verbatim>\<open>urls[Math.floor(Math.random() * urls.length)]\<close>; outside the array the
  read gives \<^verbatim>\<open>undefined\<close>, which the caller treats like \<^verbatim>\<open>null\<close>.\<close>

definition random_pick :: "world \<Rightarrow> string list \<Rightarrow> string option" where
  "random_pick w urls =
     (let randomIndex = \<lfloor>random w * real (length urls)\<rfloor>
      in if 0 \<le> randomIndex \<and> randomIndex < int (length urls)
         then Some (urls ! nat randomIndex) else None)"

text \<open>The list \<^verbatim>\<open>getRandomRedirectUrl\<close> draws from: the cached one, or the one the
  three methods load (and cache when it is not empty).\<close>

definition redirect_pool :: "env \<Rightarrow> world \<Rightarrow> int \<Rightarrow> sys \<Rightarrow> string list \<times> sys" where
  "redirect_pool env w nowMs s =
     (case getCachedData ''redirect_urls'' env w nowMs s of
        (Some cached, s1) \<Rightarrow> (cached, s1)
      | (None, s1) \<Rightarrow>
          (let s2 = log_event (HttpFetch UrlsApi) s1;
               urls1 = urls_method1 w;
               (urls2, s3) =
                 (if urls1 = []
                  then (urls_method2 w, log_event (HttpFetch UrlsRaw) s2)
                  else (urls1, s2));
               (urls3, s4) =
                 (if urls2 = []
                  then (urls_method3 w, log_event (HttpFetch UrlsTxt) s3)
                  else (urls2, s3));
               s5 = (if urls3 \<noteq> []
                     then setCachedData ''redirect_urls'' urls3 env w nowMs s4 else s4)
           in (urls3, s5)))"

definition getRandomRedirectUrl :: "env \<Rightarrow> world \<Rightarrow> int \<Rightarrow> sys \<Rightarrow> string option \<times> sys" where
  "getRandomRedirectUrl env w nowMs s =
     (case redirect_pool env w nowMs s of
        (urls, s1) \<Rightarrow> (if urls = [] then None else random_pick w urls, s1))"

section \<open>Access validator and router\<close>

datatype resp_body = NoBody | Text string | Static string | Failure string | Success string

record response =
  status :: nat
  body :: resp_body
  headers :: "(string \<times> string) list"

text \<open>\<^verbatim>\<open>new Response(JSON.stringify({ success: false, message }), { status, headers:
  { 'Content-Type': 'application/json' } })\<close>.\<close>

definition json_failure :: "nat \<Rightarrow> string \<Rightarrow> response" where
  "json_failure code message =
     \<lparr>status = code, body = Failure message,
      headers = [(''Content-Type'', ''application/json'')]\<rparr>"

definition json_success :: "string \<Rightarrow> response" where
  "json_success redirectUrl =
     \<lparr>status = 200, body = Success redirectUrl,
      headers = [(''Content-Type'', ''application/json'')]\<rparr>"

text \<open>\<^verbatim>\<open>honeypotField && honeypotField.trim() !== ''\<close>.\<close>

definition honeypot_filled :: "form \<Rightarrow> bool" where
  "honeypot_filled parsed =
     (case f_honeypotField parsed of
        None \<Rightarrow> False
      | Some honeypotField \<Rightarrow> honeypotField \<noteq> [] \<and> trim honeypotField \<noteq> [])"

text \<open>\<^verbatim>\<open>handleValidation\<close>, check by check in the order of the source. A body that is
  not JSON makes \<^verbatim>\<open>request.json()\<close> raise, which the outer \<^verbatim>\<open>catch\<close> answers with
  500 \<^verbatim>\<open>Internal server error\<close>. A response body is kept as the object handed to
  \<^verbatim>\<open>JSON.stringify\<close> (\<open>Failure message\<close>, \<open>Success redirectUrl\<close>) or as the text
  given.\<close>

definition handleValidation :: "request \<Rightarrow> env \<Rightarrow> world \<Rightarrow> int \<Rightarrow> sys \<Rightarrow> response \<times> sys" where
  "handleValidation request env w nowMs s =
     (if http_method request \<noteq> ''POST''
      then (\<lparr>status = 405, body = Text ''Method Not Allowed'', headers = []\<rparr>, s)
      else
        (let clientIP = clientIP_of request
         in case json request of
              None \<Rightarrow> (json_failure 500 ''Internal server error'', s)
            | Some parsed \<Rightarrow>
                if honeypot_filled parsed
                then (json_failure 403 ''Access denied'', s)
                else
                  (case (f_email parsed, f_turnstileToken parsed) of
                     (Some email, Some turnstileToken) \<Rightarrow>
                       if email = [] \<or> turnstileToken = []
                       then (json_failure 400 ''Missing required fields'', s)
                       else if \<not> emailRegex_test email
                       then (json_failure 400 ''Invalid email format'', s)
                       else
                         (case verifyTurnstile turnstileToken clientIP w s of
                            (turnstileValid, s1) \<Rightarrow>
                              if \<not> turnstileValid
                              then (json_failure 400
                                ''Verification failed. Please complete the challenge and try again.'', s1)
                              else
                                (case getBlacklist env w nowMs s1 of
                                   (blacklist, s2) \<Rightarrow>
                                     if clientIP \<in> set blacklist
                                     then (json_failure 403 ''Access denied'', s2)
                                     else
                                       (case getWhitelistSet env w nowMs s2 of
                                          (whitelistSet, s3) \<Rightarrow>
                                            if toLowerCase email \<notin> whitelistSet
                                            then (json_failure 403
                                              (''Sorry, this email isn'' @ [CHR 0x27]
                                                 @ ''t associated with this secure link''), s3)
                                            else
                                              (case getRandomRedirectUrl env w nowMs s3 of
                                                 (None, s4) \<Rightarrow>
                                                   (json_failure 500 ''No redirect URLs available'', s4)
                                               | (Some redirectUrl, s4) \<Rightarrow>
                                                   if redirectUrl = []
                                                   then (json_failure 500 ''No redirect URLs available'', s4)
                                                   else (json_success (redirectUrl @ email), s4)))))
                   | (Some email, None) \<Rightarrow> (json_failure 400 ''Missing required fields'', s)
                   | (None, turnstileToken) \<Rightarrow> (json_failure 400 ''Missing required fields'', s))))"

text \<open>The guards of steps 1 to 3 of the handler, for stating what happens to a request
  that gets past them: a \<^verbatim>\<open>POST\<close> with a JSON body, a blank honeypot, an address
  and a token that are present, and an address of the right shape.\<close>

definition input_ok :: "request \<Rightarrow> string \<Rightarrow> string \<Rightarrow> bool" where
  "input_ok request email turnstileToken =
     (http_method request = ''POST''
      \<and> (case json request of
            None \<Rightarrow> False
          | Some parsed \<Rightarrow> \<not> honeypot_filled parsed \<and> f_email parsed = Some email
                          \<and> f_turnstileToken parsed = Some turnstileToken)
      \<and> email \<noteq> [] \<and> turnstileToken \<noteq> [] \<and> emailRegex_test email)"

text \<open>\<^verbatim>\<open>serveStaticFile\<close>: the three files are opaque here; only their names and
  content types matter.\<close>

definition endsWith :: "string \<Rightarrow> string \<Rightarrow> bool" where
  "endsWith str p = (length p \<le> length str \<and> drop (length str - length p) str = p)"

definition serveStaticFile :: "string \<Rightarrow> response" where
  "serveStaticFile filename =
     (if filename \<notin> set [''index.html'', ''styles.css'', ''script.js'']
      then \<lparr>status = 404, body = Text ''File not found'', headers = []\<rparr>
      else
        (let contentType =
               (if endsWith filename ''.html'' then ''text/html''
                else if endsWith filename ''.css'' then ''text/css''
                else if endsWith filename ''.js'' then ''application/javascript''
                else ''text/plain'')
         in \<lparr>status = 200, body = Static filename,
             headers = [(''Content-Type'', contentType),
                        (''Cache-Control'', ''public, max-age=3600'')]\<rparr>))"

text \<open>The module's \<^verbatim>\<open>fetch\<close> handler.\<close>

definition fetch :: "request \<Rightarrow> env \<Rightarrow> world \<Rightarrow> int \<Rightarrow> sys \<Rightarrow> response \<times> sys" where
  "fetch request env w nowMs s =
     (if http_method request = ''OPTIONS''
      then (\<lparr>status = 200, body = NoBody,
             headers = [(''Access-Control-Allow-Origin'', ''*''),
                        (''Access-Control-Allow-Methods'', ''POST, GET, OPTIONS''),
                        (''Access-Control-Allow-Headers'', ''Content-Type'')]\<rparr>, s)
      else
        (case checkRateLimit request env w nowMs s of
           (rateLimitResult, s1) \<Rightarrow>
             if \<not> allowed rateLimitResult
             then (json_failure 429 ''Too many requests. Please try again later.'', s1)
             else if path request = ''/'' \<or> path request = ''/index.html''
             then (serveStaticFile ''index.html'', s1)
             else if path request = ''/styles.css'' then (serveStaticFile ''styles.css'', s1)
             else if path request = ''/script.js'' then (serveStaticFile ''script.js'', s1)
             else if path request = ''/api/validate'' then handleValidation request env w nowMs s1
             else (\<lparr>status = 404, body = Text ''Not Found'', headers = []\<rparr>, s1)))"

section \<open>Runs and traces\<close>

text \<open>A client's successive calls of the rate limiter, at the given clock readings
  (epoch milliseconds), each on the store the previous one left.\<close>

fun admit_all :: "request \<Rightarrow> env \<Rightarrow> world \<Rightarrow> int list \<Rightarrow> sys \<Rightarrow> rate_result list \<times> sys" where
  "admit_all request env w [] s = ([], s)"
| "admit_all request env w (t # ts) s =
     (case checkRateLimit request env w t s of
        (r, s1) \<Rightarrow> (case admit_all request env w ts s1 of (rs, s2) \<Rightarrow> (r # rs, s2)))"

text \<open>What the store holds for a client after the calls at \<open>prev\<close> were all admitted:
  their timestamps in seconds, expiring \<open>window + 60\<close> seconds after the last write.\<close>

definition rate_inv :: "request \<Rightarrow> env \<Rightarrow> int list \<Rightarrow> sys \<Rightarrow> bool" where
  "rate_inv request env prev s =
     (if prev = [] then kv s (rate_key request) = None
      else kv s (rate_key request) =
             Some \<lparr>kv_val = RateData (map (\<lambda>t. t div 1000) prev),
                   kv_expires = last prev + 1000 * (setting (RATE_LIMIT_WINDOW env) 60 + 60)\<rparr>)"

text \<open>The events a call added to the trace, and the remote documents fetched among
  them, in order.\<close>

definition new_events :: "sys \<Rightarrow> sys \<Rightarrow> event list" where
  "new_events s s' = drop (length (trace s)) (trace s')"

fun fetches :: "event list \<Rightarrow> source list" where
  "fetches [] = []"
| "fetches (HttpFetch src # es) = src # fetches es"
| "fetches (KvGet k ok # es) = fetches es"
| "fetches (KvPut k ok # es) = fetches es"
| "fetches (Siteverify # es) = fetches es"

text \<open>The ordered fallback in words, to compare the three fetchers with: the strategies
  are attempted in order until one gives a list that is not empty; the result is the
  strategies attempted and the list obtained, the empty list when none gave one.\<close>

fun try_in_order :: "(source \<times> 'a list) list \<Rightarrow> source list \<times> 'a list" where
  "try_in_order [] = ([], [])"
| "try_in_order ((src, found) # rest) =
     (if found \<noteq> [] then ([src], found)
      else (case try_in_order rest of (tried, r) \<Rightarrow> (src # tried, r)))"

fun failed :: "'a attempt \<Rightarrow> bool" where
  "failed Threw = True"
| "failed NotOk = True"
| "failed (Fetched content) = False"

section \<open>Concrete inputs\<close>

text \<open>A world in which the store answers and every remote call fails.\<close>

definition calm :: world where
  "calm = \<lparr>get_fails = (\<lambda>k. False), put_fails = (\<lambda>k. False),
            blacklist_api = Threw, blacklist_raw = Threw,
            whitelist_api = Threw, whitelist_raw = Threw, whitelist_txt = Threw,
            urls_api = Threw, urls_raw = Threw, urls_txt = Threw,
            siteverify = (\<lambda>token ip. None), random = 0\<rparr>"

text \<open>The same world with the store unreachable.\<close>

definition store_down :: world where
  "store_down = calm\<lparr>get_fails := (\<lambda>k. True), put_fails := (\<lambda>k. True)\<rparr>"

definition visitor :: request where
  "visitor = \<lparr>http_method = ''GET'', path = ''/'', cf_connecting_ip = Some ''203.0.113.7'',
               x_forwarded_for = None, json = None\<rparr>"

definition cap2 :: env where
  "cap2 = \<lparr>RATE_LIMIT_MAX_REQUESTS = Some 2, RATE_LIMIT_WINDOW = None, CACHE_TTL = None\<rparr>"

definition blank :: sys where
  "blank = \<lparr>kv = Map.empty, trace = []\<rparr>"

text \<open>The store after \<open>visitor\<close> was admitted at seconds 1000 and 1030.\<close>

definition two_seen :: sys where
  "two_seen = \<lparr>kv = [''rate_limit:203.0.113.7'' \<mapsto>
                       \<lparr>kv_val = RateData [1000, 1030], kv_expires = 1150000\<rparr>],
                trace = []\<rparr>"

text \<open>Every setting left at its default, and a store whose only entry is a cached deny-list
  written at millisecond 1000.\<close>

definition ttl_default :: env where
  "ttl_default = \<lparr>RATE_LIMIT_MAX_REQUESTS = None, RATE_LIMIT_WINDOW = None, CACHE_TTL = None\<rparr>"

definition cached_list :: sys where
  "cached_list = \<lparr>kv = [''cache:blacklist'' \<mapsto>
                       \<lparr>kv_val = CacheData [''198.51.100.4''] 1000, kv_expires = 361000\<rparr>],
                   trace = []\<rparr>"

text \<open>A form submission with a well-formed address and a token, and a filled honeypot;
  a preflight request; a request for a path the router does not know.\<close>

definition bot_post :: request where
  "bot_post = \<lparr>http_method = ''POST'', path = ''/api/validate'',
                cf_connecting_ip = Some ''203.0.113.7'', x_forwarded_for = None,
                json = Some \<lparr>f_email = Some ''user@example.com'',
                             f_turnstileToken = Some ''tok'',
                             f_honeypotField = Some ''x''\<rparr>\<rparr>"

definition preflight :: request where
  "preflight = \<lparr>http_method = ''OPTIONS'', path = ''/api/validate'',
                 cf_connecting_ip = Some ''203.0.113.7'', x_forwarded_for = None,
                 json = None\<rparr>"

definition stray :: request where
  "stray = \<lparr>http_method = ''GET'', path = ''/nowhere'',
             cf_connecting_ip = Some ''203.0.113.7'', x_forwarded_for = None,
             json = None\<rparr>"

text \<open>A world in which the verification service accepts every token and that serves an
  allow-list and a redirect pool; the same with a deny-list that names the client.\<close>

definition listing :: world where
  "listing = calm\<lparr>siteverify := (\<lambda>token ip. Some True),
                   whitelist_raw := Fetched (Some [''User@Example.com'']),
                   urls_raw := Fetched (Some [''https://x/r?u='']),
                   random := 1 / 2\<rparr>"

definition listing_denying :: world where
  "listing_denying = listing\<lparr>blacklist_raw := Fetched ''203.0.113.7''\<rparr>"

text \<open>The same with a redirect pool whose only entry is the empty string.\<close>

definition listing_blank_url :: world where
  "listing_blank_url = listing\<lparr>urls_raw := Fetched (Some [[]])\<rparr>"

text \<open>The same with no redirect pool to be had.\<close>

definition listing_no_urls :: world where
  "listing_no_urls = listing\<lparr>urls_raw := Threw\<rparr>"

definition good_post :: request where
  "good_post = \<lparr>http_method = ''POST'', path = ''/api/validate'',
                 cf_connecting_ip = Some ''203.0.113.7'', x_forwarded_for = None,
                 json = Some \<lparr>f_email = Some ''user@example.com'',
                              f_turnstileToken = Some ''tok'',
                              f_honeypotField = None\<rparr>\<rparr>"

definition other_post :: request where
  "other_post = \<lparr>http_method = ''POST'', path = ''/api/validate'',
                  cf_connecting_ip = Some ''203.0.113.7'', x_forwarded_for = None,
                  json = Some \<lparr>f_email = Some ''other@example.com'',
                               f_turnstileToken = Some ''tok'',
                               f_honeypotField = None\<rparr>\<rparr>"

text \<open>A world whose first allow-list strategy answers with an empty list and whose
  second one answers with one address.\<close>

definition empty_first :: world where
  "empty_first = calm\<lparr>whitelist_api := Fetched (Some []),
                       whitelist_raw := Fetched (Some [''a@b.c''])\<rparr>"

section \<open>Properties of the rate limiter\<close>

lemma within_not_expired:
  fixes t x wd :: int
  assumes "t div 1000 - x div 1000 < wd"
  shows "t < x + 1000 * (wd + 60)"
proof -
  define tq tr xq xr where "tq = t div 1000" and "tr = t mod 1000"
    and "xq = x div 1000" and "xr = x mod 1000"
  have "t = 1000 * tq + tr" "x = 1000 * xq + xr" "tr < 1000" "0 \<le> xr" "tq - xq < wd"
    using assms by (simp_all add: tq_def tr_def xq_def xr_def)
  then show ?thesis by simp
qed

lemma admit_step:
  assumes inv: "rate_inv request env prev s"
    and reach: "\<not> get_fails w (rate_key request)" "\<not> put_fails w (rate_key request)"
    and room: "int (length prev) < setting (RATE_LIMIT_MAX_REQUESTS env) 10"
    and within: "\<forall>x\<in>set prev. t div 1000 - x div 1000 < setting (RATE_LIMIT_WINDOW env) 60"
  shows "\<exists>s'. checkRateLimit request env w t s =
           (\<lparr>allowed = True,
             remaining = setting (RATE_LIMIT_MAX_REQUESTS env) 10 - int (length prev) - 1\<rparr>, s')
         \<and> rate_inv request env (prev @ [t]) s'"
proof (cases "prev = []")
  case True
  with inv reach room show ?thesis
    by (simp add: rate_inv_def checkRateLimit_def Let_def kv_get_def kv_put_def
        window_requests_def log_event_def)
next
  case False
  define secs where "secs = map (\<lambda>t. t div 1000) prev"
  define wd where "wd = setting (RATE_LIMIT_WINDOW env) 60"
  from False have "last prev \<in> set prev" by simp
  with within have live: "t < last prev + 1000 * (wd + 60)"
    unfolding wd_def using within_not_expired by blast
  from within have keep: "filter (\<lambda>timestamp. timestamp > t div 1000 - wd) secs = secs"
    unfolding secs_def wd_def by (auto simp: filter_id_conv)
  from inv False have stored: "kv s (rate_key request) =
      Some \<lparr>kv_val = RateData secs, kv_expires = last prev + 1000 * (wd + 60)\<rparr>"
    by (simp add: rate_inv_def secs_def wd_def)
  have len: "length secs = length prev" by (simp add: secs_def)
  have "checkRateLimit request env w t s =
           (\<lparr>allowed = True,
             remaining = setting (RATE_LIMIT_MAX_REQUESTS env) 10 - int (length prev) - 1\<rparr>,
            log_event (KvPut (rate_key request) True)
              ((log_event (KvGet (rate_key request) True) s)
                 \<lparr>kv := (kv s)(rate_key request \<mapsto>
                    \<lparr>kv_val = RateData (secs @ [t div 1000]),
                     kv_expires = t + 1000 * (wd + 60)\<rparr>)\<rparr>))"
    using stored live keep reach room len
    by (simp add: checkRateLimit_def Let_def kv_get_def kv_put_def
        window_requests_def log_event_def wd_def [symmetric])
  moreover have "rate_inv request env (prev @ [t]) (log_event (KvPut (rate_key request) True)
              ((log_event (KvGet (rate_key request) True) s)
                 \<lparr>kv := (kv s)(rate_key request \<mapsto>
                    \<lparr>kv_val = RateData (secs @ [t div 1000]),
                     kv_expires = t + 1000 * (wd + 60)\<rparr>)\<rparr>))"
    by (simp add: rate_inv_def log_event_def secs_def wd_def)
  ultimately show ?thesis by simp
qed

lemma admit_all_run:
  assumes reach: "\<not> get_fails w (rate_key request)" "\<not> put_fails w (rate_key request)"
  shows "rate_inv request env prev s \<Longrightarrow>
    int (length prev) + int (length ts) \<le> setting (RATE_LIMIT_MAX_REQUESTS env) 10 \<Longrightarrow>
    \<forall>x\<in>set (prev @ ts). \<forall>y\<in>set (prev @ ts).
       x div 1000 - y div 1000 < setting (RATE_LIMIT_WINDOW env) 60 \<Longrightarrow>
    admit_all request env w ts s = (rs, s') \<Longrightarrow>
    length rs = length ts \<and> (\<forall>r\<in>set rs. allowed r) \<and> rate_inv request env (prev @ ts) s'"
proof (induction ts arbitrary: prev s rs s')
  case Nil
  then show ?case by simp
next
  case (Cons t ts)
  have room: "int (length prev) < setting (RATE_LIMIT_MAX_REQUESTS env) 10"
    using Cons.prems(2) by simp
  have w1: "\<forall>x\<in>set prev. t div 1000 - x div 1000 < setting (RATE_LIMIT_WINDOW env) 60"
    using Cons.prems(3) by simp
  from admit_step[OF Cons.prems(1) reach room w1]
  obtain s1 where step: "checkRateLimit request env w t s =
           (\<lparr>allowed = True,
             remaining = setting (RATE_LIMIT_MAX_REQUESTS env) 10 - int (length prev) - 1\<rparr>, s1)"
    and inv1: "rate_inv request env (prev @ [t]) s1" by blast
  obtain rs1 s2 where rest: "admit_all request env w ts s1 = (rs1, s2)"
    by (cases "admit_all request env w ts s1")
  have len: "int (length (prev @ [t])) + int (length ts) \<le> setting (RATE_LIMIT_MAX_REQUESTS env) 10"
    using Cons.prems(2) by simp
  have w2: "\<forall>x\<in>set ((prev @ [t]) @ ts). \<forall>y\<in>set ((prev @ [t]) @ ts).
       x div 1000 - y div 1000 < setting (RATE_LIMIT_WINDOW env) 60"
    using Cons.prems(3) by simp
  from Cons.IH[OF inv1 len w2 rest]
  have ih: "length rs1 = length ts" "\<forall>r\<in>set rs1. allowed r" "rate_inv request env ((prev @ [t]) @ ts) s2"
    by simp_all
  from Cons.prems(4) step rest have "rs = \<lparr>allowed = True,
             remaining = setting (RATE_LIMIT_MAX_REQUESTS env) 10 - int (length prev) - 1\<rparr> # rs1" "s' = s2"
    by simp_all
  with ih show ?case by simp
qed


lemma reject_step:
  assumes inv: "rate_inv request env prev s"
    and reach: "\<not> get_fails w (rate_key request)"
    and full: "setting (RATE_LIMIT_MAX_REQUESTS env) 10 \<le> int (length prev)"
    and within: "\<forall>x\<in>set prev. t div 1000 - x div 1000 < setting (RATE_LIMIT_WINDOW env) 60"
  shows "checkRateLimit request env w t s =
           (\<lparr>allowed = False, remaining = 0\<rparr>, log_event (KvGet (rate_key request) True) s)"
proof (cases "prev = []")
  case True
  with inv reach full show ?thesis
    by (simp add: rate_inv_def checkRateLimit_def Let_def kv_get_def window_requests_def)
next
  case False
  define secs where "secs = map (\<lambda>t. t div 1000) prev"
  define wd where "wd = setting (RATE_LIMIT_WINDOW env) 60"
  from False have "last prev \<in> set prev" by simp
  with within have live: "t < last prev + 1000 * (wd + 60)"
    unfolding wd_def using within_not_expired by blast
  from within have keep: "filter (\<lambda>timestamp. timestamp > t div 1000 - wd) secs = secs"
    unfolding secs_def wd_def by (auto simp: filter_id_conv)
  from inv False have stored: "kv s (rate_key request) =
      Some \<lparr>kv_val = RateData secs, kv_expires = last prev + 1000 * (wd + 60)\<rparr>"
    by (simp add: rate_inv_def secs_def wd_def)
  have len: "length secs = length prev" by (simp add: secs_def)
  show ?thesis
    using stored live keep reach full len
    by (simp add: checkRateLimit_def Let_def kv_get_def
        window_requests_def wd_def [symmetric])
qed

lemma late_step:
  assumes inv: "rate_inv request env prev s"
    and reach: "\<not> get_fails w (rate_key request)" "\<not> put_fails w (rate_key request)"
    and cap: "1 \<le> setting (RATE_LIMIT_MAX_REQUESTS env) 10"
    and late: "\<forall>x\<in>set prev. setting (RATE_LIMIT_WINDOW env) 60 \<le> t div 1000 - x div 1000"
  shows "allowed (fst (checkRateLimit request env w t s))"
proof (cases "prev = []")
  case True
  with inv reach cap show ?thesis
    by (simp add: rate_inv_def checkRateLimit_def Let_def kv_get_def kv_put_def
        window_requests_def)
next
  case False
  define secs where "secs = map (\<lambda>t. t div 1000) prev"
  define wd where "wd = setting (RATE_LIMIT_WINDOW env) 60"
  from late have drop: "filter (\<lambda>timestamp. timestamp > t div 1000 - wd) secs = []"
    unfolding secs_def wd_def by (auto simp: filter_empty_conv)
  from inv False have stored: "kv s (rate_key request) =
      Some \<lparr>kv_val = RateData secs, kv_expires = last prev + 1000 * (wd + 60)\<rparr>"
    by (simp add: rate_inv_def secs_def wd_def)
  show ?thesis
    using stored drop reach cap
    by (simp add: checkRateLimit_def Let_def kv_get_def kv_put_def
        window_requests_def wd_def [symmetric])
qed

lemma rate_inv_log: "rate_inv request env prev (log_event e s) = rate_inv request env prev s"
  by (simp add: rate_inv_def log_event_def)

text \<open>
  C2. A client with no record in a reachable store makes as many calls as the cap allows
  (at least one), all within one window; every one of them is admitted. One more call
  inside the same window is rejected. A call made once the window has elapsed since
  every one of those timestamps is admitted again.
\<close>

theorem sliding_window_cap:
  assumes reach: "\<not> get_fails w (rate_key request)" "\<not> put_fails w (rate_key request)"
    and fresh: "kv s (rate_key request) = None"
    and cap: "int (length ts) = setting (RATE_LIMIT_MAX_REQUESTS env) 10" "ts \<noteq> []"
    and within: "\<forall>x\<in>set (ts @ [t_next]). \<forall>y\<in>set (ts @ [t_next]).
                   x div 1000 - y div 1000 < setting (RATE_LIMIT_WINDOW env) 60"
    and late: "\<forall>x\<in>set ts. setting (RATE_LIMIT_WINDOW env) 60 \<le> t_late div 1000 - x div 1000"
    and run: "admit_all request env w ts s = (rs, s1)"
    and nxt: "checkRateLimit request env w t_next s1 = (r_next, s2)"
    and aft: "checkRateLimit request env w t_late s2 = (r_late, s3)"
  shows "length rs = length ts \<and> (\<forall>r\<in>set rs. allowed r)
         \<and> r_next = \<lparr>allowed = False, remaining = 0\<rparr> \<and> allowed r_late"
proof -
  have inv0: "rate_inv request env [] s" using fresh by (simp add: rate_inv_def)
  have len0: "int (length ([]::int list)) + int (length ts) \<le> setting (RATE_LIMIT_MAX_REQUESTS env) 10"
    using cap by simp
  have w0: "\<forall>x\<in>set ([] @ ts). \<forall>y\<in>set ([] @ ts).
       x div 1000 - y div 1000 < setting (RATE_LIMIT_WINDOW env) 60"
    using within by simp
  from admit_all_run[OF reach inv0 len0 w0 run]
  have all: "length rs = length ts" "\<forall>r\<in>set rs. allowed r" and inv1: "rate_inv request env ts s1"
    by simp_all
  have full: "setting (RATE_LIMIT_MAX_REQUESTS env) 10 \<le> int (length ts)" using cap by simp
  have w1: "\<forall>x\<in>set ts. t_next div 1000 - x div 1000 < setting (RATE_LIMIT_WINDOW env) 60"
    using within by simp
  from reject_step[OF inv1 reach(1) full w1] nxt
  have rej: "r_next = \<lparr>allowed = False, remaining = 0\<rparr>"
    and s2: "s2 = log_event (KvGet (rate_key request) True) s1" by simp_all
  have inv2: "rate_inv request env ts s2" using inv1 s2 by (simp add: rate_inv_log)
  have "1 \<le> setting (RATE_LIMIT_MAX_REQUESTS env) 10"
    using cap by (cases ts) simp_all
  from late_step[OF inv2 reach this late] aft have "allowed r_late" by simp
  with all rej show ?thesis by simp
qed

theorem sliding_window_cap_witness:
  "map allowed (fst (admit_all visitor cap2 calm [1000000, 1030000] blank)) = [True, True]
   \<and> \<not> allowed (fst (checkRateLimit visitor cap2 calm 1059000
                      (snd (admit_all visitor cap2 calm [1000000, 1030000] blank))))
   \<and> allowed (fst (checkRateLimit visitor cap2 calm 1090000
         (snd (checkRateLimit visitor cap2 calm 1059000
                      (snd (admit_all visitor cap2 calm [1000000, 1030000] blank))))))"
proof -
  let ?run = "admit_all visitor cap2 calm [1000000, 1030000] blank"
  let ?nxt = "checkRateLimit visitor cap2 calm 1059000 (snd ?run)"
  let ?aft = "checkRateLimit visitor cap2 calm 1090000 (snd ?nxt)"
  have h: "length (fst ?run) = length [1000000, 1030000::int] \<and> (\<forall>r\<in>set (fst ?run). allowed r)
         \<and> fst ?nxt = \<lparr>allowed = False, remaining = 0\<rparr> \<and> allowed (fst ?aft)"
    by (rule sliding_window_cap[where w = calm and s = blank and env = cap2 and request = visitor
          and ?s1.0 = "snd ?run" and ?s2.0 = "snd ?nxt" and ?s3.0 = "snd ?aft"])
       (simp_all add: calm_def blank_def cap2_def setting_def)
  then show ?thesis
    by (cases "fst ?run"; cases "tl (fst ?run)") auto
qed

text \<open>
  C3. A rejected request reads the store once and writes nothing: the store is as it was,
  the only new event is the successful read, and the result is
  \<^verbatim>\<open>{ allowed: false, remaining: 0 }\<close>.
\<close>

theorem rate_limit_reject_no_write:
  assumes "checkRateLimit request env w nowMs s = (r, s')" and "\<not> allowed r"
  shows "r = \<lparr>allowed = False, remaining = 0\<rparr> \<and> kv s' = kv s
         \<and> trace s' = trace s @ [KvGet (rate_key request) True]
         \<and> \<not> (\<exists>e\<in>set (drop (length (trace s)) (trace s')). is_put e)"
  using assms
  by (auto simp: checkRateLimit_def Let_def kv_get_def kv_put_def log_event_def fail_open_def
      split: if_splits sum.splits prod.splits)

theorem rate_limit_reject_no_write_witness:
  "\<not> allowed (fst (checkRateLimit visitor cap2 calm 1059000 two_seen))
   \<and> fst (checkRateLimit visitor cap2 calm 1059000 two_seen) = \<lparr>allowed = False, remaining = 0\<rparr>
   \<and> kv (snd (checkRateLimit visitor cap2 calm 1059000 two_seen)) = kv two_seen
   \<and> trace (snd (checkRateLimit visitor cap2 calm 1059000 two_seen))
       = [KvGet ''rate_limit:203.0.113.7'' True]"
proof -
  have rejected: "\<not> allowed (fst (checkRateLimit visitor cap2 calm 1059000 two_seen))"
    by (simp add: checkRateLimit_def Let_def kv_get_def window_requests_def rate_key_def
        clientIP_of_def or_else_def setting_def visitor_def cap2_def calm_def two_seen_def)
  have key: "rate_key visitor = ''rate_limit:203.0.113.7''"
    by (simp add: rate_key_def clientIP_of_def or_else_def visitor_def)
  have "trace two_seen = []" by (simp add: two_seen_def)
  with rate_limit_reject_no_write [OF prod.collapse [symmetric] rejected] rejected key
  show ?thesis by simp
qed

text \<open>
  C4. When a store operation of the check fails, the request is admitted with one
  remaining slot. The function has no other outcome than a result: the read failing, the
  write failing and a stored value of the wrong shape all end in that same result.
\<close>

theorem rate_limit_fail_open:
  assumes "checkRateLimit request env w nowMs s = (r, s')"
    and "\<exists>e\<in>set (drop (length (trace s)) (trace s')). kv_failed e"
  shows "r = \<lparr>allowed = True, remaining = 1\<rparr>"
  using assms
  by (auto simp: checkRateLimit_def Let_def kv_get_def kv_put_def log_event_def fail_open_def
      split: if_splits sum.splits prod.splits)

theorem rate_limit_fail_open_witness:
  "(\<exists>e\<in>set (drop (length (trace two_seen))
        (trace (snd (checkRateLimit visitor cap2 store_down 1059000 two_seen)))). kv_failed e)
   \<and> fst (checkRateLimit visitor cap2 store_down 1059000 two_seen) = \<lparr>allowed = True, remaining = 1\<rparr>"
proof -
  have failed: "\<exists>e\<in>set (drop (length (trace two_seen))
        (trace (snd (checkRateLimit visitor cap2 store_down 1059000 two_seen)))). kv_failed e"
    by (simp add: checkRateLimit_def Let_def kv_get_def log_event_def store_down_def calm_def
        two_seen_def)
  from rate_limit_fail_open [OF prod.collapse [symmetric] failed] failed
  show ?thesis by simp
qed

section \<open>Properties of the cache layer\<close>

text \<open>
  C5, as stated, makes the entry stale only when its age exceeds \<open>ttl * 1000\<close>. At an age
  of exactly \<open>ttl * 1000\<close> milliseconds the entry exists, the read succeeds, the age does
  not exceed the bound, and the code answers absent.
\<close>

theorem cache_get_at_ttl_counterexample:
  "\<not> (fst (getCachedData ''blacklist'' ttl_default calm 301000 cached_list) = None \<longleftrightarrow>
        (kv cached_list ''cache:blacklist'' = None
         \<or> 301000 - 1000 > setting (CACHE_TTL ttl_default) 300 * 1000
         \<or> get_fails calm ''cache:blacklist''))"
  by (simp add: getCachedData_def kv_get_def Let_def setting_def ttl_default_def calm_def
      cached_list_def)

text \<open>
  C5, amended. A failing read gives absent; a missing entry gives absent; an entry that
  \<^verbatim>\<open>setCachedData\<close> wrote (payload and non-zero timestamp) is returned exactly while
  the store still holds it and its age is below \<open>ttl * 1000\<close> milliseconds, so an age
  of \<open>ttl * 1000\<close> or more gives absent. In particular a read made between
  \<open>ttl\<close> and \<open>ttl + 60\<close> seconds after the write finds the entry still in the store
  and answers absent.
\<close>

theorem cache_get_absent_iff:
  "(get_fails w (''cache:'' @ key) \<longrightarrow> fst (getCachedData key env w nowMs s) = None)
   \<and> (kv s (''cache:'' @ key) = None \<longrightarrow> fst (getCachedData key env w nowMs s) = None)
   \<and> (\<not> get_fails w (''cache:'' @ key)
        \<and> kv s (''cache:'' @ key) = Some \<lparr>kv_val = CacheData d ts, kv_expires = x\<rparr> \<and> ts \<noteq> 0 \<longrightarrow>
        fst (getCachedData key env w nowMs s) =
          (if nowMs < x \<and> nowMs - ts < setting (CACHE_TTL env) 300 * 1000 then Some d else None))
   \<and> (\<not> get_fails w (''cache:'' @ key) \<and> \<not> put_fails w (''cache:'' @ key) \<and> t0 \<noteq> 0
        \<and> setting (CACHE_TTL env) 300 * 1000 \<le> t1 - t0
        \<and> t1 - t0 < (setting (CACHE_TTL env) 300 + 60) * 1000 \<longrightarrow>
        fst (kv_get w t1 (''cache:'' @ key) (setCachedData key d' env w t0 s))
          = Inr (Some (CacheData d' t0))
        \<and> fst (getCachedData key env w t1 (setCachedData key d' env w t0 s)) = None)"
proof (intro conjI impI)
  assume "get_fails w (''cache:'' @ key)"
  then show "fst (getCachedData key env w nowMs s) = None"
    by (simp add: getCachedData_def kv_get_def Let_def)
next
  assume "kv s (''cache:'' @ key) = None"
  then show "fst (getCachedData key env w nowMs s) = None"
    by (simp add: getCachedData_def kv_get_def Let_def)
next
  assume "\<not> get_fails w (''cache:'' @ key)
        \<and> kv s (''cache:'' @ key) = Some \<lparr>kv_val = CacheData d ts, kv_expires = x\<rparr> \<and> ts \<noteq> 0"
  then show "fst (getCachedData key env w nowMs s) =
          (if nowMs < x \<and> nowMs - ts < setting (CACHE_TTL env) 300 * 1000 then Some d else None)"
    by (simp add: getCachedData_def kv_get_def Let_def)
next
  assume a: "\<not> get_fails w (''cache:'' @ key) \<and> \<not> put_fails w (''cache:'' @ key) \<and> t0 \<noteq> 0
        \<and> setting (CACHE_TTL env) 300 * 1000 \<le> t1 - t0
        \<and> t1 - t0 < (setting (CACHE_TTL env) 300 + 60) * 1000"
  then have live: "t1 < t0 + 1000 * (setting (CACHE_TTL env) 300 + 60)" by simp
  from a live show "fst (kv_get w t1 (''cache:'' @ key) (setCachedData key d' env w t0 s))
          = Inr (Some (CacheData d' t0))"
    by (simp add: setCachedData_def kv_put_def kv_get_def log_event_def Let_def)
  from a live show "fst (getCachedData key env w t1 (setCachedData key d' env w t0 s)) = None"
    by (simp add: getCachedData_def setCachedData_def kv_put_def kv_get_def log_event_def Let_def)
qed

theorem cache_get_absent_iff_witness:
  "fst (getCachedData ''blacklist'' ttl_default store_down 2000 cached_list) = None
   \<and> fst (getCachedData ''whitelist_set'' ttl_default calm 2000 cached_list) = None
   \<and> fst (getCachedData ''blacklist'' ttl_default calm 300999 cached_list) = Some [''198.51.100.4'']
   \<and> fst (getCachedData ''blacklist'' ttl_default calm 301000 cached_list) = None
   \<and> fst (kv_get calm 301000 ''cache:blacklist''
            (setCachedData ''blacklist'' [''198.51.100.4''] ttl_default calm 1000 blank))
       = Inr (Some (CacheData [''198.51.100.4''] 1000))
   \<and> fst (getCachedData ''blacklist'' ttl_default calm 301000
            (setCachedData ''blacklist'' [''198.51.100.4''] ttl_default calm 1000 blank)) = None"
proof -
  have ttl: "setting (CACHE_TTL ttl_default) 300 = 300"
    by (simp add: setting_def ttl_default_def)
  have down: "get_fails store_down (''cache:'' @ ''blacklist'')"
    by (simp add: store_down_def)
  have up: "\<not> get_fails calm (''cache:'' @ ''blacklist'')" "\<not> put_fails calm (''cache:'' @ ''blacklist'')"
    by (simp_all add: calm_def)
  have none: "kv cached_list (''cache:'' @ ''whitelist_set'') = None"
    by (simp add: cached_list_def)
  have some: "kv cached_list (''cache:'' @ ''blacklist'')
      = Some \<lparr>kv_val = CacheData [''198.51.100.4''] 1000, kv_expires = 361000\<rparr>"
    by (simp add: cached_list_def)
  note a = cache_get_absent_iff [where w = store_down and key = "''blacklist''" and env = ttl_default
      and nowMs = 2000 and s = cached_list, THEN conjunct1, rule_format, OF down]
  note b = cache_get_absent_iff [where w = calm and key = "''whitelist_set''" and env = ttl_default
      and nowMs = 2000 and s = cached_list, THEN conjunct2, THEN conjunct1, rule_format, OF none]
  note c1 = cache_get_absent_iff [where w = calm and key = "''blacklist''" and env = ttl_default
      and nowMs = 300999 and s = cached_list and ts = 1000 and x = 361000
      and d = "[''198.51.100.4'']",
      THEN conjunct2, THEN conjunct2, THEN conjunct1, rule_format]
  note c2 = cache_get_absent_iff [where w = calm and key = "''blacklist''" and env = ttl_default
      and nowMs = 301000 and s = cached_list and ts = 1000 and x = 361000
      and d = "[''198.51.100.4'']",
      THEN conjunct2, THEN conjunct2, THEN conjunct1, rule_format]
  note d = cache_get_absent_iff [where w = calm and key = "''blacklist''" and env = ttl_default
      and ?t0.0 = 1000 and ?t1.0 = 301000 and s = blank and d' = "[''198.51.100.4'']",
      THEN conjunct2, THEN conjunct2, THEN conjunct2, rule_format]
  show ?thesis
    using a b c1 c2 d up some ttl by simp
qed

section \<open>Properties of the access validator and the router\<close>

lemma trim_Nil: "trim [] = []"
  by (simp add: trim_def)

lemma handleValidation_input_ok:
  assumes "input_ok request email tok"
  shows "handleValidation request env w nowMs s =
    (case verifyTurnstile tok (clientIP_of request) w s of
       (turnstileValid, s1) \<Rightarrow>
         if \<not> turnstileValid
         then (json_failure 400
                 ''Verification failed. Please complete the challenge and try again.'', s1)
         else
           (case getBlacklist env w nowMs s1 of
              (blacklist, s2) \<Rightarrow>
                if clientIP_of request \<in> set blacklist
                then (json_failure 403 ''Access denied'', s2)
                else
                  (case getWhitelistSet env w nowMs s2 of
                     (whitelistSet, s3) \<Rightarrow>
                       if toLowerCase email \<notin> whitelistSet
                       then (json_failure 403
                               (''Sorry, this email isn'' @ [CHR 0x27]
                                  @ ''t associated with this secure link''), s3)
                       else
                         (case getRandomRedirectUrl env w nowMs s3 of
                            (None, s4) \<Rightarrow> (json_failure 500 ''No redirect URLs available'', s4)
                          | (Some redirectUrl, s4) \<Rightarrow>
                              if redirectUrl = []
                              then (json_failure 500 ''No redirect URLs available'', s4)
                              else (json_success (redirectUrl @ email), s4)))))"
  using assms
  by (auto simp: input_ok_def handleValidation_def Let_def split: option.splits)

lemma handleValidation_not_ok:
  assumes "\<forall>email tok. \<not> input_ok request email tok"
  shows "snd (handleValidation request env w nowMs s) = s"
proof (cases "http_method request = ''POST''")
  case False
  then show ?thesis by (simp add: handleValidation_def)
next
  case post: True
  show ?thesis
  proof (cases "json request")
    case None
    with post show ?thesis by (simp add: handleValidation_def)
  next
    case (Some parsed)
    show ?thesis
    proof (cases "honeypot_filled parsed")
      case True
      with post Some show ?thesis by (simp add: handleValidation_def)
    next
      case False
      show ?thesis
      proof (cases "f_email parsed")
        case None
        with post Some False show ?thesis by (simp add: handleValidation_def)
      next
        case e: (Some email)
        show ?thesis
        proof (cases "f_turnstileToken parsed")
          case None
          with post Some False e show ?thesis by (simp add: handleValidation_def)
        next
          case t: (Some tok)
          from assms have "\<not> input_ok request email tok" by blast
          with post Some False e t have "email = [] \<or> tok = [] \<or> \<not> emailRegex_test email"
            by (simp add: input_ok_def)
          with post Some False e t show ?thesis
            by (auto simp: handleValidation_def Let_def)
        qed
      qed
    qed
  qed
qed

lemma prefix_log: "prefix (trace s) (trace (log_event e s))"
  by (simp add: log_event_def)

lemma prefix_log_trans: "prefix t (trace s) \<Longrightarrow> prefix t (trace (log_event e s))"
  using prefix_log prefix_order.trans by blast

lemma snd_getCachedData:
  "snd (getCachedData key env w nowMs s) =
     log_event (KvGet (''cache:'' @ key) (\<not> get_fails w (''cache:'' @ key))) s"
  by (simp add: getCachedData_def kv_get_def Let_def split: option.splits kv_value.splits)

lemma prefix_getCachedData:
  "prefix t (trace s) \<Longrightarrow> prefix t (trace (snd (getCachedData key env w nowMs s)))"
  by (simp add: snd_getCachedData prefix_log_trans)

lemma prefix_setCachedData:
  "prefix t (trace s) \<Longrightarrow> prefix t (trace (setCachedData key d env w nowMs s))"
  by (auto simp: setCachedData_def kv_put_def Let_def log_event_def)

lemma prefix_verifyTurnstile:
  "prefix t (trace s) \<Longrightarrow> prefix t (trace (snd (verifyTurnstile token ip w s)))"
  by (auto simp: verifyTurnstile_def log_event_def split: option.splits)


lemma prefix_getBlacklist:
  assumes "prefix t (trace s)"
  shows "prefix t (trace (snd (getBlacklist env w nowMs s)))"
proof -
  obtain c s1 where g: "getCachedData ''blacklist'' env w nowMs s = (c, s1)"
    by (cases "getCachedData ''blacklist'' env w nowMs s")
  from prefix_getCachedData [OF assms, of "''blacklist''" env w nowMs] g
  have p1: "prefix t (trace s1)" by simp
  show ?thesis
  proof (cases c)
    case (Some cached)
    with g p1 show ?thesis by (simp add: getBlacklist_def)
  next
    case None
    with g p1 show ?thesis
      by (simp add: getBlacklist_def Let_def prefix_log_trans prefix_setCachedData)
  qed
qed

lemma prefix_getWhitelistSet:
  assumes "prefix t (trace s)"
  shows "prefix t (trace (snd (getWhitelistSet env w nowMs s)))"
proof -
  obtain c s1 where g: "getCachedData ''whitelist_set'' env w nowMs s = (c, s1)"
    by (cases "getCachedData ''whitelist_set'' env w nowMs s")
  from prefix_getCachedData [OF assms, of "''whitelist_set''" env w nowMs] g
  have p1: "prefix t (trace s1)" by simp
  show ?thesis
  proof (cases c)
    case (Some cached)
    with g p1 show ?thesis by (simp add: getWhitelistSet_def)
  next
    case None
    with g p1 show ?thesis
      by (simp add: getWhitelistSet_def Let_def prefix_log_trans prefix_setCachedData)
  qed
qed

lemma prefix_redirect_pool:
  assumes "prefix t (trace s)"
  shows "prefix t (trace (snd (redirect_pool env w nowMs s)))"
proof -
  obtain c s1 where g: "getCachedData ''redirect_urls'' env w nowMs s = (c, s1)"
    by (cases "getCachedData ''redirect_urls'' env w nowMs s")
  from prefix_getCachedData [OF assms, of "''redirect_urls''" env w nowMs] g
  have p1: "prefix t (trace s1)" by simp
  show ?thesis
  proof (cases c)
    case (Some cached)
    with g p1 show ?thesis by (simp add: redirect_pool_def)
  next
    case None
    with g p1 show ?thesis
      by (simp add: redirect_pool_def Let_def prefix_log_trans prefix_setCachedData)
  qed
qed

lemma prefix_getRandomRedirectUrl:
  assumes "prefix t (trace s)"
  shows "prefix t (trace (snd (getRandomRedirectUrl env w nowMs s)))"
proof -
  obtain urls s1 where g: "redirect_pool env w nowMs s = (urls, s1)"
    by (cases "redirect_pool env w nowMs s")
  with prefix_redirect_pool [OF assms, of env w nowMs] show ?thesis
    by (simp add: getRandomRedirectUrl_def)
qed

lemma prefix_handleValidation:
  assumes "prefix t (trace s)"
  shows "prefix t (trace (snd (handleValidation request env w nowMs s)))"
proof (cases "\<exists>email tok. input_ok request email tok")
  case False
  then have "snd (handleValidation request env w nowMs s) = s"
    using handleValidation_not_ok by blast
  with assms show ?thesis by simp
next
  case True
  then obtain email tok where ok: "input_ok request email tok" by blast
  obtain tv s1 where v: "verifyTurnstile tok (clientIP_of request) w s = (tv, s1)"
    by (cases "verifyTurnstile tok (clientIP_of request) w s")
  obtain bl s2 where b: "getBlacklist env w nowMs s1 = (bl, s2)"
    by (cases "getBlacklist env w nowMs s1")
  obtain ws s3 where wl: "getWhitelistSet env w nowMs s2 = (ws, s3)"
    by (cases "getWhitelistSet env w nowMs s2")
  obtain ru s4 where r: "getRandomRedirectUrl env w nowMs s3 = (ru, s4)"
    by (cases "getRandomRedirectUrl env w nowMs s3")
  have p1: "prefix t (trace s1)"
    using prefix_verifyTurnstile [OF assms, of tok "clientIP_of request" w] v by simp
  have p2: "prefix t (trace s2)"
    using prefix_getBlacklist [OF p1, of env w nowMs] b by simp
  have p3: "prefix t (trace s3)"
    using prefix_getWhitelistSet [OF p2, of env w nowMs] wl by simp
  have p4: "prefix t (trace s4)"
    using prefix_getRandomRedirectUrl [OF p3, of env w nowMs] r by simp
  have "snd (handleValidation request env w nowMs s) \<in> {s1, s2, s3, s4}"
    by (simp add: handleValidation_input_ok [OF ok] v b wl r split: option.splits)
  with p1 p2 p3 p4 show ?thesis by auto
qed

lemma checkRateLimit_first_event:
  "\<exists>evs. trace (snd (checkRateLimit request env w nowMs s)) =
     trace s @ KvGet (rate_key request) (\<not> get_fails w (rate_key request)) # evs"
  by (auto simp: checkRateLimit_def Let_def kv_get_def kv_put_def log_event_def
      split: sum.splits)

lemma fetch_first_event:
  assumes "http_method request \<noteq> ''OPTIONS''"
  shows "\<exists>evs. trace (snd (fetch request env w nowMs s)) =
     trace s @ KvGet (rate_key request) (\<not> get_fails w (rate_key request)) # evs"
proof -
  obtain r s1 where c: "checkRateLimit request env w nowMs s = (r, s1)"
    by (cases "checkRateLimit request env w nowMs s")
  from checkRateLimit_first_event [of request env w nowMs s] c
  obtain evs where t1: "trace s1 =
      trace s @ KvGet (rate_key request) (\<not> get_fails w (rate_key request)) # evs"
    by auto
  have "prefix (trace s1) (trace (snd (handleValidation request env w nowMs s1)))"
    by (rule prefix_handleValidation) simp
  then have "prefix (trace s1) (trace (snd (fetch request env w nowMs s)))"
    using assms c by (simp add: fetch_def)
  then obtain more where "trace (snd (fetch request env w nowMs s)) = trace s1 @ more"
    by (auto simp: prefix_def)
  with t1 show ?thesis by simp
qed

text \<open>
  C8. A \<^verbatim>\<open>POST\<close> whose JSON body carries a honeypot value that is not blank is answered
  with 403 \<^verbatim>\<open>Access denied\<close> whatever the other fields, the store and the remote
  services are; the state is returned as it was, so nothing was read, fetched or verified.
\<close>

theorem honeypot_rejects_first:
  assumes "http_method request = ''POST''" and "json request = Some parsed"
    and "f_honeypotField parsed = Some h" and "trim h \<noteq> []"
  shows "handleValidation request env w nowMs s =
           (\<lparr>status = 403, body = Failure ''Access denied'',
             headers = [(''Content-Type'', ''application/json'')]\<rparr>, s)"
proof -
  from assms(4) have "h \<noteq> []" using trim_Nil by auto
  with assms show ?thesis
    by (simp add: handleValidation_def json_failure_def honeypot_filled_def)
qed

theorem honeypot_rejects_first_witness:
  "trim ''x'' \<noteq> []
   \<and> handleValidation bot_post ttl_default calm 1000 blank =
       (\<lparr>status = 403, body = Failure ''Access denied'',
         headers = [(''Content-Type'', ''application/json'')]\<rparr>, blank)"
proof -
  have t: "trim ''x'' \<noteq> []" by (simp add: trim_def is_space_def)
  have m: "http_method bot_post = ''POST''" by (simp add: bot_post_def)
  have j: "json bot_post = Some \<lparr>f_email = Some ''user@example.com'',
                             f_turnstileToken = Some ''tok'',
                             f_honeypotField = Some ''x''\<rparr>" by (simp add: bot_post_def)
  from honeypot_rejects_first [OF m j _ t, of ttl_default calm 1000 blank] t
  show ?thesis by simp
qed

text \<open>
  C10. For a request that is not \<^verbatim>\<open>OPTIONS\<close> the first thing the handler does to the
  outside is the rate limiter's read of the client's record, and when the rate limiter
  rejects, the answer is 429 whatever the path. An \<^verbatim>\<open>OPTIONS\<close> request is answered
  with 200 and the CORS headers on the untouched state, whatever the store holds.
\<close>

theorem rate_gate_before_routing:
  "(http_method request \<noteq> ''OPTIONS'' \<longrightarrow>
      (\<exists>evs. trace (snd (fetch request env w nowMs s)) =
         trace s @ KvGet (rate_key request) (\<not> get_fails w (rate_key request)) # evs)
      \<and> (\<not> allowed (fst (checkRateLimit request env w nowMs s)) \<longrightarrow>
           fetch request env w nowMs s =
             (\<lparr>status = 429, body = Failure ''Too many requests. Please try again later.'',
               headers = [(''Content-Type'', ''application/json'')]\<rparr>,
              snd (checkRateLimit request env w nowMs s))))
   \<and> (http_method request = ''OPTIONS'' \<longrightarrow>
      fetch request env w nowMs s =
        (\<lparr>status = 200, body = NoBody,
          headers = [(''Access-Control-Allow-Origin'', ''*''),
                     (''Access-Control-Allow-Methods'', ''POST, GET, OPTIONS''),
                     (''Access-Control-Allow-Headers'', ''Content-Type'')]\<rparr>, s))"
proof (intro conjI impI)
  assume "http_method request \<noteq> ''OPTIONS''"
  then show "\<exists>evs. trace (snd (fetch request env w nowMs s)) =
         trace s @ KvGet (rate_key request) (\<not> get_fails w (rate_key request)) # evs"
    by (rule fetch_first_event)
next
  assume "http_method request \<noteq> ''OPTIONS''"
    and "\<not> allowed (fst (checkRateLimit request env w nowMs s))"
  then show "fetch request env w nowMs s =
             (\<lparr>status = 429, body = Failure ''Too many requests. Please try again later.'',
               headers = [(''Content-Type'', ''application/json'')]\<rparr>,
              snd (checkRateLimit request env w nowMs s))"
    by (cases "checkRateLimit request env w nowMs s") (simp add: fetch_def json_failure_def)
next
  assume "http_method request = ''OPTIONS''"
  then show "fetch request env w nowMs s =
        (\<lparr>status = 200, body = NoBody,
          headers = [(''Access-Control-Allow-Origin'', ''*''),
                     (''Access-Control-Allow-Methods'', ''POST, GET, OPTIONS''),
                     (''Access-Control-Allow-Headers'', ''Content-Type'')]\<rparr>, s)"
    by (simp add: fetch_def)
qed

theorem rate_gate_before_routing_witness:
  "\<not> allowed (fst (checkRateLimit stray cap2 calm 1059000 two_seen))
   \<and> status (fst (fetch stray cap2 calm 1059000 two_seen)) = 429
   \<and> status (fst (fetch visitor cap2 calm 1059000 two_seen)) = 429
   \<and> trace (snd (fetch stray cap2 calm 1059000 two_seen)) = [KvGet ''rate_limit:203.0.113.7'' True]
   \<and> fetch preflight cap2 calm 1059000 two_seen =
        (\<lparr>status = 200, body = NoBody,
          headers = [(''Access-Control-Allow-Origin'', ''*''),
                     (''Access-Control-Allow-Methods'', ''POST, GET, OPTIONS''),
                     (''Access-Control-Allow-Headers'', ''Content-Type'')]\<rparr>, two_seen)"
proof -
  have m: "http_method stray \<noteq> ''OPTIONS''" "http_method visitor \<noteq> ''OPTIONS''"
    "http_method preflight = ''OPTIONS''"
    by (simp_all add: stray_def visitor_def preflight_def)
  have k: "rate_key stray = ''rate_limit:203.0.113.7''"
    by (simp add: rate_key_def clientIP_of_def or_else_def stray_def)
  have c: "checkRateLimit stray cap2 calm 1059000 two_seen =
      (\<lparr>allowed = False, remaining = 0\<rparr>, log_event (KvGet ''rate_limit:203.0.113.7'' True) two_seen)"
    "checkRateLimit visitor cap2 calm 1059000 two_seen =
      (\<lparr>allowed = False, remaining = 0\<rparr>, log_event (KvGet ''rate_limit:203.0.113.7'' True) two_seen)"
    by (simp_all add: checkRateLimit_def Let_def kv_get_def window_requests_def rate_key_def
        clientIP_of_def or_else_def setting_def visitor_def stray_def cap2_def calm_def
        two_seen_def)
  have t: "trace (log_event (KvGet ''rate_limit:203.0.113.7'' True) two_seen)
      = [KvGet ''rate_limit:203.0.113.7'' True]"
    by (simp add: log_event_def two_seen_def)
  from rate_gate_before_routing [of stray cap2 calm 1059000 two_seen]
    rate_gate_before_routing [of visitor cap2 calm 1059000 two_seen]
    rate_gate_before_routing [of preflight cap2 calm 1059000 two_seen]
    m c t
  show ?thesis by simp
qed

lemma lower_user: "toLowerCase ''User@Example.com'' = ''user@example.com''"
  by code_simp

lemma lower_other: "toLowerCase ''other@example.com'' = ''other@example.com''"
  by code_simp

lemma lower_user_id: "toLowerCase ''user@example.com'' = ''user@example.com''"
  by code_simp

lemma good_post_ok: "input_ok good_post ''user@example.com'' ''tok''"
  by (simp add: input_ok_def good_post_def honeypot_filled_def emailRegex_test_def is_space_def)

lemma other_post_ok: "input_ok other_post ''other@example.com'' ''tok''"
  by (simp add: input_ok_def other_post_def honeypot_filled_def emailRegex_test_def is_space_def)

lemma ip_good: "clientIP_of good_post = ''203.0.113.7''"
  by (simp add: clientIP_of_def or_else_def good_post_def)

lemma ip_other: "clientIP_of other_post = ''203.0.113.7''"
  by (simp add: clientIP_of_def or_else_def other_post_def)

lemmas eval_defs = verifyTurnstile_def getBlacklist_def getWhitelistSet_def redirect_pool_def
  getRandomRedirectUrl_def getCachedData_def setCachedData_def kv_get_def kv_put_def
  log_event_def Let_def setting_def ip_good ip_other
  blacklist_method1_def blacklist_method2_def blacklist_lines_def
  whitelist_method1_def whitelist_method2_def whitelist_method3_def json_emails_def
  urls_method1_def urls_method2_def urls_method3_def json_urls_def random_pick_def
  trim_def is_space_def


lemma deny_hit:
  "handleValidation other_post ttl_default listing_denying 1000 blank =
     (json_failure 403 ''Access denied'',
      snd (handleValidation other_post ttl_default listing_denying 1000 blank))"
  by (simp add: handleValidation_input_ok [OF other_post_ok] eval_defs
      listing_denying_def listing_def calm_def blank_def ttl_default_def)

lemma allow_miss:
  "handleValidation other_post ttl_default listing 1000 blank =
     (json_failure 403 (''Sorry, this email isn'' @ [CHR 0x27] @ ''t associated with this secure link''),
      snd (handleValidation other_post ttl_default listing 1000 blank))"
  by (simp add: handleValidation_input_ok [OF other_post_ok] eval_defs lower_user lower_other
      listing_def calm_def blank_def ttl_default_def)

lemma verify_fail:
  "handleValidation good_post ttl_default calm 1000 blank =
     (json_failure 400 ''Verification failed. Please complete the challenge and try again.'',
      snd (handleValidation good_post ttl_default calm 1000 blank))"
  by (simp add: handleValidation_input_ok [OF good_post_ok] eval_defs calm_def blank_def)

text \<open>
  C1, as stated, fails. The same request against the same world, with and without the
  client on the deny-list: the deny-list hit is answered \<^verbatim>\<open>Access denied\<close>, the
  allow-list miss with another message, so the bodies differ. A failed bot verification
  is answered with status 400, not the 403 of the deny-list hit.
\<close>

theorem denial_bodies_differ_counterexample:
  "body (fst (handleValidation other_post ttl_default listing_denying 1000 blank))
     \<noteq> body (fst (handleValidation other_post ttl_default listing 1000 blank))
   \<and> status (fst (handleValidation good_post ttl_default calm 1000 blank))
     \<noteq> status (fst (handleValidation other_post ttl_default listing_denying 1000 blank))"
proof -
  have "fst (handleValidation other_post ttl_default listing_denying 1000 blank)
      = json_failure 403 ''Access denied''"
    by (subst deny_hit) simp
  moreover have "fst (handleValidation other_post ttl_default listing 1000 blank)
      = json_failure 403 (''Sorry, this email isn'' @ [CHR 0x27] @ ''t associated with this secure link'')"
    by (subst allow_miss) simp
  moreover have "fst (handleValidation good_post ttl_default calm 1000 blank)
      = json_failure 400 ''Verification failed. Please complete the challenge and try again.''"
    by (subst verify_fail) simp
  ultimately show ?thesis by (simp add: json_failure_def)
qed

text \<open>
  C1, amended. A filled honeypot and a deny-list hit are answered with the same
  response, 403 \<^verbatim>\<open>Access denied\<close>. An allow-list miss is answered with 403 and a
  message of its own, a failed bot verification with 400 and a message of its own.
\<close>

theorem denial_responses:
  "(http_method request = ''POST'' \<and> json request = Some parsed \<and> honeypot_filled parsed \<longrightarrow>
      handleValidation request env w nowMs s = (json_failure 403 ''Access denied'', s))
   \<and> (input_ok request email tok
        \<and> verifyTurnstile tok (clientIP_of request) w s = (False, s1) \<longrightarrow>
      handleValidation request env w nowMs s =
        (json_failure 400 ''Verification failed. Please complete the challenge and try again.'', s1))
   \<and> (input_ok request email tok
        \<and> verifyTurnstile tok (clientIP_of request) w s = (True, s1)
        \<and> getBlacklist env w nowMs s1 = (blacklist, s2)
        \<and> clientIP_of request \<in> set blacklist \<longrightarrow>
      handleValidation request env w nowMs s = (json_failure 403 ''Access denied'', s2))
   \<and> (input_ok request email tok
        \<and> verifyTurnstile tok (clientIP_of request) w s = (True, s1)
        \<and> getBlacklist env w nowMs s1 = (blacklist, s2)
        \<and> clientIP_of request \<notin> set blacklist
        \<and> getWhitelistSet env w nowMs s2 = (whitelistSet, s3)
        \<and> toLowerCase email \<notin> whitelistSet \<longrightarrow>
      handleValidation request env w nowMs s =
        (json_failure 403
           (''Sorry, this email isn'' @ [CHR 0x27] @ ''t associated with this secure link''), s3))"
proof (intro conjI impI)
  assume "http_method request = ''POST'' \<and> json request = Some parsed \<and> honeypot_filled parsed"
  then show "handleValidation request env w nowMs s = (json_failure 403 ''Access denied'', s)"
    by (simp add: handleValidation_def)
next
  assume "input_ok request email tok
        \<and> verifyTurnstile tok (clientIP_of request) w s = (False, s1)"
  then show "handleValidation request env w nowMs s =
        (json_failure 400 ''Verification failed. Please complete the challenge and try again.'', s1)"
    by (elim conjE) (simp add: handleValidation_input_ok)
next
  assume "input_ok request email tok
        \<and> verifyTurnstile tok (clientIP_of request) w s = (True, s1)
        \<and> getBlacklist env w nowMs s1 = (blacklist, s2)
        \<and> clientIP_of request \<in> set blacklist"
  then show "handleValidation request env w nowMs s = (json_failure 403 ''Access denied'', s2)"
    by (elim conjE) (simp add: handleValidation_input_ok)
next
  assume "input_ok request email tok
        \<and> verifyTurnstile tok (clientIP_of request) w s = (True, s1)
        \<and> getBlacklist env w nowMs s1 = (blacklist, s2)
        \<and> clientIP_of request \<notin> set blacklist
        \<and> getWhitelistSet env w nowMs s2 = (whitelistSet, s3)
        \<and> toLowerCase email \<notin> whitelistSet"
  then show "handleValidation request env w nowMs s =
        (json_failure 403
           (''Sorry, this email isn'' @ [CHR 0x27] @ ''t associated with this secure link''), s3)"
    by (elim conjE) (simp add: handleValidation_input_ok)
qed

theorem denial_responses_witness:
  "fst (handleValidation bot_post ttl_default calm 1000 blank) = json_failure 403 ''Access denied''
   \<and> fst (handleValidation good_post ttl_default calm 1000 blank) =
       json_failure 400 ''Verification failed. Please complete the challenge and try again.''
   \<and> fst (handleValidation other_post ttl_default listing_denying 1000 blank) =
       json_failure 403 ''Access denied''
   \<and> fst (handleValidation other_post ttl_default listing 1000 blank) =
       json_failure 403
         (''Sorry, this email isn'' @ [CHR 0x27] @ ''t associated with this secure link'')"
proof -
  let ?d1 = "snd (verifyTurnstile ''tok'' (clientIP_of other_post) listing_denying blank)"
  let ?l1 = "snd (verifyTurnstile ''tok'' (clientIP_of other_post) listing blank)"
  let ?l2 = "snd (getBlacklist ttl_default listing 1000 ?l1)"
  have honeypot: "http_method bot_post = ''POST''
      \<and> json bot_post = Some \<lparr>f_email = Some ''user@example.com'',
                                 f_turnstileToken = Some ''tok'', f_honeypotField = Some ''x''\<rparr>
      \<and> honeypot_filled \<lparr>f_email = Some ''user@example.com'',
                            f_turnstileToken = Some ''tok'', f_honeypotField = Some ''x''\<rparr>"
    by (simp add: bot_post_def honeypot_filled_def trim_def is_space_def)
  have unverified: "input_ok good_post ''user@example.com'' ''tok''
      \<and> verifyTurnstile ''tok'' (clientIP_of good_post) calm blank =
          (False, snd (verifyTurnstile ''tok'' (clientIP_of good_post) calm blank))"
    by (simp add: good_post_ok verifyTurnstile_def calm_def)
  have denied: "input_ok other_post ''other@example.com'' ''tok''
      \<and> verifyTurnstile ''tok'' (clientIP_of other_post) listing_denying blank = (True, ?d1)
      \<and> getBlacklist ttl_default listing_denying 1000 ?d1 =
          (fst (getBlacklist ttl_default listing_denying 1000 ?d1),
           snd (getBlacklist ttl_default listing_denying 1000 ?d1))
      \<and> clientIP_of other_post \<in> set (fst (getBlacklist ttl_default listing_denying 1000 ?d1))"
    by (simp add: other_post_ok eval_defs listing_denying_def listing_def calm_def blank_def
        ttl_default_def)
  have unlisted: "input_ok other_post ''other@example.com'' ''tok''
      \<and> verifyTurnstile ''tok'' (clientIP_of other_post) listing blank = (True, ?l1)
      \<and> getBlacklist ttl_default listing 1000 ?l1 =
          (fst (getBlacklist ttl_default listing 1000 ?l1), ?l2)
      \<and> clientIP_of other_post \<notin> set (fst (getBlacklist ttl_default listing 1000 ?l1))
      \<and> getWhitelistSet ttl_default listing 1000 ?l2 =
          (fst (getWhitelistSet ttl_default listing 1000 ?l2),
           snd (getWhitelistSet ttl_default listing 1000 ?l2))
      \<and> toLowerCase ''other@example.com'' \<notin> fst (getWhitelistSet ttl_default listing 1000 ?l2)"
    by (simp add: other_post_ok eval_defs lower_user lower_other listing_def calm_def blank_def
        ttl_default_def)
  note a = denial_responses [THEN conjunct1, rule_format, OF honeypot]
  note b = denial_responses [THEN conjunct2, THEN conjunct1, rule_format, OF unverified]
  note c = denial_responses [THEN conjunct2, THEN conjunct2, THEN conjunct1, rule_format, OF denied]
  note d = denial_responses [THEN conjunct2, THEN conjunct2, THEN conjunct2, rule_format, OF unlisted]
  show ?thesis
    by (simp add: a b c d)
qed

text \<open>
  C9, as stated, fails when the pool is not empty and the URL drawn from it is the empty
  string: the handler answers 500, as for an empty pool.
\<close>

theorem blank_url_counterexample:
  "fst (redirect_pool ttl_default listing_blank_url 1000
          (snd (getWhitelistSet ttl_default listing_blank_url 1000
             (snd (getBlacklist ttl_default listing_blank_url 1000
                (snd (verifyTurnstile ''tok'' ''203.0.113.7'' listing_blank_url blank))))))) = [[]]
   \<and> fst (handleValidation good_post ttl_default listing_blank_url 1000 blank)
       = json_failure 500 ''No redirect URLs available''"
  by (simp add: handleValidation_input_ok [OF good_post_ok] eval_defs lower_user lower_user_id
      listing_blank_url_def listing_def calm_def blank_def ttl_default_def)

lemma random_pick_in:
  assumes "urls \<noteq> []" and "0 \<le> random w" and "random w < 1"
  shows "\<exists>u\<in>set urls. random_pick w urls = Some u"
proof -
  define n where "n = real (length urls)"
  have n: "0 < n" using assms(1) by (simp add: n_def)
  have lo: "0 \<le> random w * n" using assms(2) n by simp
  have hi: "random w * n < n" using assms(3) n by simp
  have a: "0 \<le> \<lfloor>random w * n\<rfloor>" using lo by simp
  have b: "\<lfloor>random w * n\<rfloor> < int (length urls)"
    using hi by (simp add: n_def floor_less_iff)
  from a b have "nat \<lfloor>random w * n\<rfloor> < length urls" by linarith
  then have "urls ! nat \<lfloor>random w * n\<rfloor> \<in> set urls" by (rule nth_mem)
  with a b show ?thesis
    by (simp add: random_pick_def Let_def n_def)
qed

text \<open>
  C9, amended. For a request that passed every access check: an empty pool is answered
  with 500; from a pool that is not empty one of its URLs is drawn, and the answer is the
  success payload with the submitted address appended to that URL, as submitted, unless
  the URL is the empty string, which is answered with 500 like an empty pool.
\<close>

theorem redirect_outcome:
  assumes "input_ok request email tok"
    and "verifyTurnstile tok (clientIP_of request) w s = (True, s1)"
    and "getBlacklist env w nowMs s1 = (blacklist, s2)"
    and "clientIP_of request \<notin> set blacklist"
    and "getWhitelistSet env w nowMs s2 = (whitelistSet, s3)"
    and "toLowerCase email \<in> whitelistSet"
    and "redirect_pool env w nowMs s3 = (urls, s4)"
  shows "(urls = [] \<longrightarrow>
           handleValidation request env w nowMs s =
             (json_failure 500 ''No redirect URLs available'', s4))
         \<and> (urls \<noteq> [] \<and> 0 \<le> random w \<and> random w < 1 \<longrightarrow>
           (\<exists>u\<in>set urls.
              handleValidation request env w nowMs s =
                (if u = [] then json_failure 500 ''No redirect URLs available''
                 else json_success (u @ email), s4)))"
proof (intro conjI impI)
  assume "urls = []"
  with assms show "handleValidation request env w nowMs s =
             (json_failure 500 ''No redirect URLs available'', s4)"
    by (simp add: handleValidation_input_ok getRandomRedirectUrl_def)
next
  assume "urls \<noteq> [] \<and> 0 \<le> random w \<and> random w < 1"
  then obtain u where u: "u \<in> set urls" "random_pick w urls = Some u"
    using random_pick_in by blast
  with assms \<open>urls \<noteq> [] \<and> 0 \<le> random w \<and> random w < 1\<close>
  have "handleValidation request env w nowMs s =
                (if u = [] then json_failure 500 ''No redirect URLs available''
                 else json_success (u @ email), s4)"
    by (simp add: handleValidation_input_ok getRandomRedirectUrl_def)
  with u show "\<exists>u\<in>set urls.
              handleValidation request env w nowMs s =
                (if u = [] then json_failure 500 ''No redirect URLs available''
                 else json_success (u @ email), s4)" by blast
qed


theorem redirect_outcome_witness:
  "fst (handleValidation good_post ttl_default listing_no_urls 1000 blank) =
     json_failure 500 ''No redirect URLs available''
   \<and> fst (handleValidation good_post ttl_default listing 1000 blank) =
     json_success ''https://x/r?u=user@example.com''"
proof -
  let ?e1 = "snd (verifyTurnstile ''tok'' (clientIP_of good_post) listing_no_urls blank)"
  let ?e2 = "snd (getBlacklist ttl_default listing_no_urls 1000 ?e1)"
  let ?e3 = "snd (getWhitelistSet ttl_default listing_no_urls 1000 ?e2)"
  let ?l1 = "snd (verifyTurnstile ''tok'' (clientIP_of good_post) listing blank)"
  let ?l2 = "snd (getBlacklist ttl_default listing 1000 ?l1)"
  let ?l3 = "snd (getWhitelistSet ttl_default listing 1000 ?l2)"
  have e: "verifyTurnstile ''tok'' (clientIP_of good_post) listing_no_urls blank = (True, ?e1)"
    "getBlacklist ttl_default listing_no_urls 1000 ?e1 =
       (fst (getBlacklist ttl_default listing_no_urls 1000 ?e1), ?e2)"
    "clientIP_of good_post \<notin> set (fst (getBlacklist ttl_default listing_no_urls 1000 ?e1))"
    "getWhitelistSet ttl_default listing_no_urls 1000 ?e2 =
       (fst (getWhitelistSet ttl_default listing_no_urls 1000 ?e2), ?e3)"
    "toLowerCase ''user@example.com'' \<in> fst (getWhitelistSet ttl_default listing_no_urls 1000 ?e2)"
    "redirect_pool ttl_default listing_no_urls 1000 ?e3 =
       ([], snd (redirect_pool ttl_default listing_no_urls 1000 ?e3))"
    by (simp_all add: eval_defs lower_user lower_user_id listing_no_urls_def listing_def calm_def
        blank_def ttl_default_def)
  have l: "verifyTurnstile ''tok'' (clientIP_of good_post) listing blank = (True, ?l1)"
    "getBlacklist ttl_default listing 1000 ?l1 =
       (fst (getBlacklist ttl_default listing 1000 ?l1), ?l2)"
    "clientIP_of good_post \<notin> set (fst (getBlacklist ttl_default listing 1000 ?l1))"
    "getWhitelistSet ttl_default listing 1000 ?l2 =
       (fst (getWhitelistSet ttl_default listing 1000 ?l2), ?l3)"
    "toLowerCase ''user@example.com'' \<in> fst (getWhitelistSet ttl_default listing 1000 ?l2)"
    "redirect_pool ttl_default listing 1000 ?l3 =
       ([''https://x/r?u=''], snd (redirect_pool ttl_default listing 1000 ?l3))"
    by (simp_all add: eval_defs lower_user lower_user_id listing_def calm_def
        blank_def ttl_default_def)
  have r: "0 \<le> random listing \<and> random listing < 1"
    by (simp add: listing_def calm_def)
  note a = redirect_outcome [OF good_post_ok e, THEN conjunct1, rule_format]
  note b = redirect_outcome [OF good_post_ok l, THEN conjunct2, rule_format]
  from a b r show ?thesis by simp
qed

section \<open>Properties of the remote document fetcher\<close>

lemma new_events_append: "trace s' = trace s @ evs \<Longrightarrow> new_events s s' = evs"
  by (simp add: new_events_def)

lemma trace_setCachedData:
  "trace (setCachedData key d env w nowMs s) =
     trace s @ [KvPut (''cache:'' @ key) (\<not> put_fails w (''cache:'' @ key))]"
  by (simp add: setCachedData_def kv_put_def log_event_def Let_def)

lemma getCachedData_miss:
  assumes "fst (getCachedData key env w nowMs s) = None"
  shows "getCachedData key env w nowMs s =
    (None, log_event (KvGet (''cache:'' @ key) (\<not> get_fails w (''cache:'' @ key))) s)"
  using assms snd_getCachedData [of key env w nowMs s]
  by (cases "getCachedData key env w nowMs s") simp

lemma getBlacklist_miss:
  assumes "fst (getCachedData ''blacklist'' env w nowMs s) = None"
  shows "(fetches (new_events s (snd (getBlacklist env w nowMs s))),
          fst (getBlacklist env w nowMs s)) =
         try_in_order [(BlacklistApi, blacklist_method1 w), (BlacklistRaw, blacklist_method2 w)]"
proof -
  note g = getCachedData_miss [OF assms]
  show ?thesis
    by (simp add: getBlacklist_def g Let_def new_events_def log_event_def trace_setCachedData)
qed


lemma getWhitelistSet_miss:
  assumes "fst (getCachedData ''whitelist_set'' env w nowMs s) = None"
  shows "fetches (new_events s (snd (getWhitelistSet env w nowMs s))) =
           fst (try_in_order [(WhitelistApi, whitelist_method1 w),
                              (WhitelistRaw, whitelist_method2 w),
                              (WhitelistTxt, whitelist_method3 w)])"
    and "fst (getWhitelistSet env w nowMs s) =
           set (snd (try_in_order [(WhitelistApi, whitelist_method1 w),
                                   (WhitelistRaw, whitelist_method2 w),
                                   (WhitelistTxt, whitelist_method3 w)]))"
proof -
  note g = getCachedData_miss [OF assms]
  show "fetches (new_events s (snd (getWhitelistSet env w nowMs s))) =
           fst (try_in_order [(WhitelistApi, whitelist_method1 w),
                              (WhitelistRaw, whitelist_method2 w),
                              (WhitelistTxt, whitelist_method3 w)])"
    by (simp add: getWhitelistSet_def g Let_def new_events_def log_event_def trace_setCachedData)
  show "fst (getWhitelistSet env w nowMs s) =
           set (snd (try_in_order [(WhitelistApi, whitelist_method1 w),
                                   (WhitelistRaw, whitelist_method2 w),
                                   (WhitelistTxt, whitelist_method3 w)]))"
    by (simp add: getWhitelistSet_def g Let_def)
qed

lemma redirect_pool_miss:
  assumes "fst (getCachedData ''redirect_urls'' env w nowMs s) = None"
  shows "(fetches (new_events s (snd (redirect_pool env w nowMs s))),
          fst (redirect_pool env w nowMs s)) =
         try_in_order [(UrlsApi, urls_method1 w), (UrlsRaw, urls_method2 w),
                       (UrlsTxt, urls_method3 w)]"
proof -
  note g = getCachedData_miss [OF assms]
  show ?thesis
    by (simp add: redirect_pool_def g Let_def new_events_def log_event_def trace_setCachedData)
qed

lemma failed_methods:
  "failed (blacklist_api w) \<Longrightarrow> blacklist_method1 w = []"
  "failed (blacklist_raw w) \<Longrightarrow> blacklist_method2 w = []"
  "failed (whitelist_api w) \<Longrightarrow> whitelist_method1 w = []"
  "failed (whitelist_raw w) \<Longrightarrow> whitelist_method2 w = []"
  "failed (whitelist_txt w) \<Longrightarrow> whitelist_method3 w = []"
  "failed (urls_api w) \<Longrightarrow> urls_method1 w = []"
  "failed (urls_raw w) \<Longrightarrow> urls_method2 w = []"
  "failed (urls_txt w) \<Longrightarrow> urls_method3 w = []"
  by (auto simp: blacklist_method1_def blacklist_method2_def whitelist_method1_def
      whitelist_method2_def whitelist_method3_def urls_method1_def urls_method2_def
      urls_method3_def split: attempt.splits)

text \<open>
  C6, as stated, fails. The first allow-list strategy answers, and its content parses, to
  an empty list; the code goes on to the second strategy and returns that one's list.
\<close>

theorem first_parsed_not_winner_counterexample:
  "whitelist_api empty_first = Fetched (Some [])
   \<and> fst (getWhitelistSet ttl_default empty_first 1000 blank) \<noteq> set (json_emails (Some []))
   \<and> WhitelistRaw \<in> set (fetches (new_events blank
                                (snd (getWhitelistSet ttl_default empty_first 1000 blank))))"
  by (simp add: getWhitelistSet_def getCachedData_def setCachedData_def kv_get_def kv_put_def
      log_event_def Let_def new_events_def whitelist_method1_def whitelist_method2_def
      json_emails_def empty_first_def calm_def blank_def)

text \<open>
  C6, amended. When the cache has nothing, each of the three fetchers attempts its
  strategies in their fixed order until one gives a list that is not empty: that list is
  the result and no later strategy is fetched; a strategy that fails, or whose content
  parses to an empty list, is followed by the next one. When every strategy fails the
  result is the empty collection. The fetchers are total functions: nothing is raised.
\<close>

theorem ordered_fallback:
  "(fst (getCachedData ''blacklist'' env w nowMs s) = None \<longrightarrow>
      (fetches (new_events s (snd (getBlacklist env w nowMs s))),
       fst (getBlacklist env w nowMs s)) =
        try_in_order [(BlacklistApi, blacklist_method1 w), (BlacklistRaw, blacklist_method2 w)]
      \<and> (failed (blacklist_api w) \<and> failed (blacklist_raw w) \<longrightarrow>
           fst (getBlacklist env w nowMs s) = []))
   \<and> (fst (getCachedData ''whitelist_set'' env w nowMs s) = None \<longrightarrow>
      fetches (new_events s (snd (getWhitelistSet env w nowMs s))) =
        fst (try_in_order [(WhitelistApi, whitelist_method1 w),
                           (WhitelistRaw, whitelist_method2 w),
                           (WhitelistTxt, whitelist_method3 w)])
      \<and> fst (getWhitelistSet env w nowMs s) =
        set (snd (try_in_order [(WhitelistApi, whitelist_method1 w),
                                (WhitelistRaw, whitelist_method2 w),
                                (WhitelistTxt, whitelist_method3 w)]))
      \<and> (failed (whitelist_api w) \<and> failed (whitelist_raw w) \<and> failed (whitelist_txt w) \<longrightarrow>
           fst (getWhitelistSet env w nowMs s) = {}))
   \<and> (fst (getCachedData ''redirect_urls'' env w nowMs s) = None \<longrightarrow>
      (fetches (new_events s (snd (redirect_pool env w nowMs s))),
       fst (redirect_pool env w nowMs s)) =
        try_in_order [(UrlsApi, urls_method1 w), (UrlsRaw, urls_method2 w),
                      (UrlsTxt, urls_method3 w)]
      \<and> (failed (urls_api w) \<and> failed (urls_raw w) \<and> failed (urls_txt w) \<longrightarrow>
           fst (redirect_pool env w nowMs s) = []
           \<and> fst (getRandomRedirectUrl env w nowMs s) = None))"
proof (intro conjI impI)
  assume m: "fst (getCachedData ''blacklist'' env w nowMs s) = None"
  show "(fetches (new_events s (snd (getBlacklist env w nowMs s))),
       fst (getBlacklist env w nowMs s)) =
        try_in_order [(BlacklistApi, blacklist_method1 w), (BlacklistRaw, blacklist_method2 w)]"
    using m by (rule getBlacklist_miss)
  assume "failed (blacklist_api w) \<and> failed (blacklist_raw w)"
  then have "blacklist_method1 w = []" "blacklist_method2 w = []"
    by (simp_all add: failed_methods)
  with getBlacklist_miss [OF m] show "fst (getBlacklist env w nowMs s) = []" by simp
next
  assume m: "fst (getCachedData ''whitelist_set'' env w nowMs s) = None"
  show "fetches (new_events s (snd (getWhitelistSet env w nowMs s))) =
        fst (try_in_order [(WhitelistApi, whitelist_method1 w),
                           (WhitelistRaw, whitelist_method2 w),
                           (WhitelistTxt, whitelist_method3 w)])"
    using m by (rule getWhitelistSet_miss(1))
  show "fst (getWhitelistSet env w nowMs s) =
        set (snd (try_in_order [(WhitelistApi, whitelist_method1 w),
                                (WhitelistRaw, whitelist_method2 w),
                                (WhitelistTxt, whitelist_method3 w)]))"
    using m by (rule getWhitelistSet_miss(2))
  assume "failed (whitelist_api w) \<and> failed (whitelist_raw w) \<and> failed (whitelist_txt w)"
  then have "whitelist_method1 w = []" "whitelist_method2 w = []" "whitelist_method3 w = []"
    by (simp_all add: failed_methods)
  with getWhitelistSet_miss(2) [OF m] show "fst (getWhitelistSet env w nowMs s) = {}" by simp
next
  assume m: "fst (getCachedData ''redirect_urls'' env w nowMs s) = None"
  show "(fetches (new_events s (snd (redirect_pool env w nowMs s))),
       fst (redirect_pool env w nowMs s)) =
        try_in_order [(UrlsApi, urls_method1 w), (UrlsRaw, urls_method2 w),
                      (UrlsTxt, urls_method3 w)]"
    using m by (rule redirect_pool_miss)
  assume "failed (urls_api w) \<and> failed (urls_raw w) \<and> failed (urls_txt w)"
  then have "urls_method1 w = []" "urls_method2 w = []" "urls_method3 w = []"
    by (simp_all add: failed_methods)
  with redirect_pool_miss [OF m] have e: "fst (redirect_pool env w nowMs s) = []" by simp
  then show "fst (redirect_pool env w nowMs s) = []" .
  from e show "fst (getRandomRedirectUrl env w nowMs s) = None"
    by (cases "redirect_pool env w nowMs s") (simp add: getRandomRedirectUrl_def)
qed


theorem ordered_fallback_witness:
  "fetches (new_events blank (snd (getWhitelistSet ttl_default empty_first 1000 blank)))
     = [WhitelistApi, WhitelistRaw]
   \<and> fst (getWhitelistSet ttl_default empty_first 1000 blank) = {''a@b.c''}
   \<and> fetches (new_events blank (snd (getBlacklist ttl_default listing_denying 1000 blank)))
     = [BlacklistApi, BlacklistRaw]
   \<and> fst (getBlacklist ttl_default listing_denying 1000 blank) = [''203.0.113.7'']
   \<and> fetches (new_events blank (snd (redirect_pool ttl_default listing 1000 blank)))
     = [UrlsApi, UrlsRaw]
   \<and> fst (redirect_pool ttl_default listing 1000 blank) = [''https://x/r?u='']
   \<and> fst (getBlacklist ttl_default calm 1000 blank) = []
   \<and> fst (getWhitelistSet ttl_default calm 1000 blank) = {}
   \<and> fst (getRandomRedirectUrl ttl_default calm 1000 blank) = None"
proof -
  have miss: "fst (getCachedData key ttl_default w 1000 blank) = None" for key w
    by (simp add: getCachedData_def kv_get_def Let_def blank_def)
  have down: "failed (blacklist_api calm) \<and> failed (blacklist_raw calm)"
    "failed (whitelist_api calm) \<and> failed (whitelist_raw calm) \<and> failed (whitelist_txt calm)"
    "failed (urls_api calm) \<and> failed (urls_raw calm) \<and> failed (urls_txt calm)"
    by (simp_all add: calm_def)
  have m: "whitelist_method1 empty_first = []" "whitelist_method2 empty_first = [''a@b.c'']"
    "blacklist_method1 listing_denying = []" "blacklist_method2 listing_denying = [''203.0.113.7'']"
    "urls_method1 listing = []" "urls_method2 listing = [''https://x/r?u='']"
    by (simp_all add: whitelist_method1_def whitelist_method2_def json_emails_def
        blacklist_method1_def blacklist_method2_def blacklist_lines_def trim_def is_space_def
        urls_method1_def urls_method2_def json_urls_def toLowerCase_def lower_char_def
        is_upper_def empty_first_def listing_denying_def listing_def calm_def)
  note a = ordered_fallback [of ttl_default empty_first 1000 blank, THEN conjunct2, THEN conjunct1,
      rule_format, OF miss]
  note b = ordered_fallback [of ttl_default listing_denying 1000 blank, THEN conjunct1,
      rule_format, OF miss]
  note c = ordered_fallback [of ttl_default listing 1000 blank, THEN conjunct2, THEN conjunct2,
      rule_format, OF miss]
  note d = ordered_fallback [of ttl_default calm 1000 blank, THEN conjunct1,
      rule_format, OF miss, THEN conjunct2, rule_format, OF down(1)]
  note e = ordered_fallback [of ttl_default calm 1000 blank, THEN conjunct2, THEN conjunct1,
      rule_format, OF miss, THEN conjunct2, THEN conjunct2, rule_format, OF down(2)]
  note f = ordered_fallback [of ttl_default calm 1000 blank, THEN conjunct2, THEN conjunct2,
      rule_format, OF miss, THEN conjunct2, rule_format, OF down(3)]
  from a b c d e f show ?thesis
    by (simp add: m)
qed

section \<open>Case-insensitive allow-list matching\<close>

lemma lower_char_at: "lower_char c = CHR ''@'' \<longleftrightarrow> c = CHR ''@''"
proof
  assume a: "lower_char c = CHR ''@''"
  define k where "k = (of_char c :: nat)"
  show "c = CHR ''@''"
  proof (cases "is_upper k")
    case False
    with a show ?thesis by (simp add: lower_char_def k_def)
  next
    case True
    with a have eq: "char_of (k + 32) = CHR ''@''"
      by (simp add: lower_char_def k_def)
    have "(of_char (char_of (k + 32)) :: nat) = (k + 32) mod 256" by (rule of_char_of)
    with eq have m: "(k + 32) mod 256 = 64" by simp
    from True have r: "(65 \<le> k \<and> k \<le> 90) \<or> (192 \<le> k \<and> k \<le> 222 \<and> k \<noteq> 215)"
      by (simp add: is_upper_def)
    then have "k + 32 < 256" by linarith
    then have "(k + 32) mod 256 = k + 32" by (rule mod_less)
    with m have "k = 32" by linarith
    with r have False by linarith
    then show ?thesis ..
  qed
next
  assume "c = CHR ''@''"
  then show "lower_char c = CHR ''@''" by (simp add: lower_char_def is_upper_def)
qed

lemma at_toLowerCase: "CHR ''@'' \<in> set (toLowerCase str) \<longleftrightarrow> CHR ''@'' \<in> set str"
proof
  assume "CHR ''@'' \<in> set (toLowerCase str)"
  then obtain c where "c \<in> set str" "lower_char c = CHR ''@''"
    by (auto simp: toLowerCase_def)
  then show "CHR ''@'' \<in> set str" by (simp add: lower_char_at)
next
  assume "CHR ''@'' \<in> set str"
  then have "lower_char CHR ''@'' \<in> set (toLowerCase str)"
    unfolding toLowerCase_def by simp
  moreover have "lower_char CHR ''@'' = CHR ''@''" by (simp add: lower_char_at)
  ultimately show "CHR ''@'' \<in> set (toLowerCase str)" by simp
qed

lemma emailRegex_has_at:
  assumes "emailRegex_test str"
  shows "CHR ''@'' \<in> set str"
proof -
  from assms have "dropWhile (\<lambda>c. c \<noteq> CHR ''@'') str \<noteq> []"
    unfolding emailRegex_test_def Let_def by blast
  then have "\<not> (\<forall>c\<in>set str. c \<noteq> CHR ''@'')"
    unfolding dropWhile_eq_Nil_conv .
  then show ?thesis by blast
qed


lemma json_emails_lower: "E \<in> set es \<Longrightarrow> toLowerCase E \<in> set (json_emails (Some es))"
  by (simp add: json_emails_def)

lemma text_emails_lower:
  assumes "E \<in> set (map trim (split_lines txt))" and "CHR ''@'' \<in> set E"
  shows "toLowerCase E \<in> set (text_emails txt)"
proof -
  from assms(2) have "E \<noteq> []" by auto
  with assms have "E \<in> set (filter (\<lambda>email. email \<noteq> [] \<and> CHR ''@'' \<in> set email)
          (map trim (split_lines txt)))" by simp
  then have "toLowerCase E \<in> toLowerCase ` set (filter (\<lambda>email. email \<noteq> [] \<and> CHR ''@'' \<in> set email)
          (map trim (split_lines txt)))" by (rule imageI)
  then show ?thesis by (simp add: text_emails_def)
qed


lemma kept_in_text:
  assumes "E \<in> set (map trim (split_lines txt))"
    and "toLowerCase E = toLowerCase email" and "emailRegex_test email"
  shows "toLowerCase E \<in> set (text_emails txt)"
proof -
  from assms(3) have "CHR ''@'' \<in> set email" by (rule emailRegex_has_at)
  then have "CHR ''@'' \<in> set (toLowerCase email)" by (rule at_toLowerCase [THEN iffD2])
  then have "CHR ''@'' \<in> set (toLowerCase E)" by (simp only: assms(2))
  then have "CHR ''@'' \<in> set E" by (rule at_toLowerCase [THEN iffD1])
  with assms(1) show ?thesis by (rule text_emails_lower)
qed

lemma methods_lower:
  "\<exists>es. whitelist_method1 w = map toLowerCase es"
  "\<exists>es. whitelist_method2 w = map toLowerCase es"
  "\<exists>es. whitelist_method3 w = map toLowerCase es"
proof -
  have nil: "[] = map toLowerCase []" by simp
  show "\<exists>es. whitelist_method1 w = map toLowerCase es"
  proof (cases "whitelist_api w")
    case (Fetched content)
    then show ?thesis by (simp add: whitelist_method1_def json_emails_def) blast
  qed (use nil in \<open>simp_all add: whitelist_method1_def\<close>)
  show "\<exists>es. whitelist_method2 w = map toLowerCase es"
  proof (cases "whitelist_raw w")
    case (Fetched content)
    then show ?thesis by (simp add: whitelist_method2_def json_emails_def) blast
  qed (use nil in \<open>simp_all add: whitelist_method2_def\<close>)
  show "\<exists>es. whitelist_method3 w = map toLowerCase es"
  proof (cases "whitelist_txt w")
    case (Fetched content)
    then show ?thesis by (simp add: whitelist_method3_def text_emails_def) blast
  qed (use nil in \<open>simp_all add: whitelist_method3_def\<close>)
qed

text \<open>What \<^verbatim>\<open>getWhitelistSet\<close> writes to the cache is a lower-cased list.\<close>

lemma getWhitelistSet_caches_lower:
  assumes "fst (getCachedData ''whitelist_set'' env w nowMs s) = None"
  shows "kv (snd (getWhitelistSet env w nowMs s)) ''cache:whitelist_set''
           = kv s ''cache:whitelist_set''
         \<or> (\<exists>es x. kv (snd (getWhitelistSet env w nowMs s)) ''cache:whitelist_set''
                  = Some \<lparr>kv_val = CacheData (map toLowerCase es) nowMs, kv_expires = x\<rparr>)"
proof -
  note g = getCachedData_miss [OF assms]
  obtain e1 e2 e3 where m: "whitelist_method1 w = map toLowerCase e1"
    "whitelist_method2 w = map toLowerCase e2" "whitelist_method3 w = map toLowerCase e3"
    using methods_lower by blast
  show ?thesis
    by (simp add: getWhitelistSet_def g Let_def log_event_def setCachedData_def kv_put_def m)
       blast
qed

text \<open>
  C7. A request that passed the input checks, the bot verification and the deny-list is
  checked against the allow-list. When the list the fetcher uses (the first strategy's
  whose normalised list is not empty) has an entry \<open>E\<close> that lower-cases to the same
  string as the submitted address, or when the cache holds such a list lower-cased, the
  lower-cased address is in the set, and the handler goes on to the redirect step: its
  answer is the success payload or the 500 of an unusable pool, not a denial.
\<close>

theorem allow_list_case_insensitive:
  assumes ok: "input_ok request email tok"
    and v: "verifyTurnstile tok (clientIP_of request) w s = (True, s1)"
    and b: "getBlacklist env w nowMs s1 = (blacklist, s2)"
    and nb: "clientIP_of request \<notin> set blacklist"
    and src: "(fst (getCachedData ''whitelist_set'' env w nowMs s2) = None
               \<and> (whitelist_api w = Fetched (Some es)
                    \<or> (whitelist_method1 w = [] \<and> whitelist_raw w = Fetched (Some es))
                    \<or> (whitelist_method1 w = [] \<and> whitelist_method2 w = []
                        \<and> (\<exists>txt. whitelist_txt w = Fetched txt
                                   \<and> es = map trim (split_lines txt)))))
              \<or> fst (getCachedData ''whitelist_set'' env w nowMs s2) = Some (map toLowerCase es)"
    and mem: "E \<in> set es"
    and same: "toLowerCase E = toLowerCase email"
  shows "toLowerCase email \<in> fst (getWhitelistSet env w nowMs s2)
         \<and> ((\<exists>u. fst (handleValidation request env w nowMs s) = json_success (u @ email))
              \<or> fst (handleValidation request env w nowMs s) =
                  json_failure 500 ''No redirect URLs available'')"
proof -
  have listed: "toLowerCase email \<in> fst (getWhitelistSet env w nowMs s2)"
  proof (cases "fst (getCachedData ''whitelist_set'' env w nowMs s2)")
    case (Some cached)
    with src have c: "cached = map toLowerCase es" by simp
    from Some have "fst (getWhitelistSet env w nowMs s2) = set cached"
      by (cases "getCachedData ''whitelist_set'' env w nowMs s2") (simp add: getWhitelistSet_def)
    with c mem same show ?thesis by (metis image_eqI set_map)
  next
    case None
    note r = getWhitelistSet_miss(2) [OF None]
    have e1: "toLowerCase E \<in> set (whitelist_method1 w)" if "whitelist_api w = Fetched (Some es)"
      using that mem by (simp add: whitelist_method1_def json_emails_lower)
    have e2: "toLowerCase E \<in> set (whitelist_method2 w)" if "whitelist_raw w = Fetched (Some es)"
      using that mem by (simp add: whitelist_method2_def json_emails_lower)
    have e3: "toLowerCase E \<in> set (whitelist_method3 w)"
      if "whitelist_txt w = Fetched content" "es = map trim (split_lines content)" for content
      using that mem same ok kept_in_text [of E content email]
      by (simp add: whitelist_method3_def input_ok_def)
    from src None consider
        (from_api) "whitelist_api w = Fetched (Some es)"
      | (from_raw) "whitelist_method1 w = []" "whitelist_raw w = Fetched (Some es)"
      | (from_text) t where "whitelist_method1 w = []" "whitelist_method2 w = []"
          "whitelist_txt w = Fetched t" "es = map trim (split_lines t)"
      by auto
    then have "toLowerCase E \<in> fst (getWhitelistSet env w nowMs s2)"
    proof cases
      case from_api
      from e1 [OF from_api] have "whitelist_method1 w \<noteq> []" by auto
      with e1 [OF from_api] show ?thesis by (simp add: r)
    next
      case from_raw
      from e2 [OF from_raw(2)] have "whitelist_method2 w \<noteq> []" by auto
      with e2 [OF from_raw(2)] from_raw(1) show ?thesis by (simp add: r)
    next
      case from_text
      from e3 [OF from_text(3,4)] have "whitelist_method3 w \<noteq> []" by auto
      with e3 [OF from_text(3,4)] from_text(1,2) show ?thesis by (simp add: r)
    qed
    with same show ?thesis by simp
  qed
  obtain ws s3 where wl: "getWhitelistSet env w nowMs s2 = (ws, s3)"
    by (cases "getWhitelistSet env w nowMs s2")
  obtain ru s4 where r: "getRandomRedirectUrl env w nowMs s3 = (ru, s4)"
    by (cases "getRandomRedirectUrl env w nowMs s3")
  from listed wl have "toLowerCase email \<in> ws" by simp
  then have "handleValidation request env w nowMs s =
      (case ru of None \<Rightarrow> json_failure 500 ''No redirect URLs available''
       | Some redirectUrl \<Rightarrow> if redirectUrl = [] then json_failure 500 ''No redirect URLs available''
                           else json_success (redirectUrl @ email), s4)"
    using v b nb wl r by (simp add: handleValidation_input_ok [OF ok] split: option.splits)
  then have "(\<exists>u. fst (handleValidation request env w nowMs s) = json_success (u @ email))
              \<or> fst (handleValidation request env w nowMs s) =
                  json_failure 500 ''No redirect URLs available''"
    by (cases ru) auto
  with listed show ?thesis by simp
qed

theorem allow_list_case_insensitive_witness:
  "''User@Example.com'' \<in> set [''User@Example.com'']
   \<and> toLowerCase ''User@Example.com'' = toLowerCase ''user@example.com''
   \<and> toLowerCase ''user@example.com'' \<in> fst (getWhitelistSet ttl_default listing 1000
        (snd (getBlacklist ttl_default listing 1000
           (snd (verifyTurnstile ''tok'' (clientIP_of good_post) listing blank)))))
   \<and> status (fst (handleValidation good_post ttl_default listing 1000 blank)) \<noteq> 403"
proof -
  let ?l1 = "snd (verifyTurnstile ''tok'' (clientIP_of good_post) listing blank)"
  let ?l2 = "snd (getBlacklist ttl_default listing 1000 ?l1)"
  have v: "verifyTurnstile ''tok'' (clientIP_of good_post) listing blank = (True, ?l1)"
    and b: "getBlacklist ttl_default listing 1000 ?l1 =
       (fst (getBlacklist ttl_default listing 1000 ?l1), ?l2)"
    and nb: "clientIP_of good_post \<notin> set (fst (getBlacklist ttl_default listing 1000 ?l1))"
    by (simp_all add: eval_defs listing_def calm_def blank_def ttl_default_def)
  have src: "(fst (getCachedData ''whitelist_set'' ttl_default listing 1000 ?l2) = None
               \<and> (whitelist_api listing = Fetched (Some [''User@Example.com''])
                    \<or> (whitelist_method1 listing = []
                        \<and> whitelist_raw listing = Fetched (Some [''User@Example.com'']))
                    \<or> (whitelist_method1 listing = [] \<and> whitelist_method2 listing = []
                        \<and> (\<exists>txt. whitelist_txt listing = Fetched txt
                                   \<and> [''User@Example.com''] = map trim (split_lines txt)))))
              \<or> fst (getCachedData ''whitelist_set'' ttl_default listing 1000 ?l2)
                  = Some (map toLowerCase [''User@Example.com''])"
    by (simp add: eval_defs listing_def calm_def blank_def ttl_default_def)
  have mem: "''User@Example.com'' \<in> set [''User@Example.com'']" by simp
  have same: "toLowerCase ''User@Example.com'' = toLowerCase ''user@example.com''"
    by (simp add: lower_user lower_user_id)
  from allow_list_case_insensitive [OF good_post_ok v b nb src mem same] mem same
  show ?thesis by (auto simp: json_success_def json_failure_def)
qed

end
